theory Spec2Isabelle
  imports Main "HOL-Library.Multiset"
begin

section \<open>Data model\<close>

text \<open>
  The pruning service of bitcore-node (\<^verbatim>\<open>services/pruning.ts\<close>) works on two MongoDB
  collections. Only the fields the service reads or writes are kept. A collection is the
  list of its documents in storage order. Heights and times are JavaScript numbers that
  hold integers (block heights, negative status markers, milliseconds since the epoch).
  \<^verbatim>\<open>spentTxid\<close> may be missing on a coin, so it is optional.
\<close>

record doc =
  chain :: string
  network :: string

record tx = doc +
  txid :: string
  blockHeight :: int
  blockTimeNormalized :: int

record coin = doc +
  mintTxid :: string
  mintHeight :: int
  spentTxid :: "string option"
  spentHeight :: int

text \<open>
  The errors the service creates, by their messages: \<^verbatim>\<open>'Stopping'\<close>,
  \<^verbatim>\<open>`Invalid coin! ${coin.mintTxid} `\<close>, \<^verbatim>\<open>`${tx.txid} has too many decendents`\<close> and
  \<^verbatim>\<open>'Config structure should contain both a chain and network'\<close>.
\<close>

datatype error =
    Stopping
  | Invalid_coin string
  | Too_many_decendents string
  | Config_structure

text \<open>The lines handed to the logger, one constructor per message template.\<close>

datatype logline =
    Found_outdated nat string string
  | Finding string
  | Removing bool nat
  | Removed string nat
  | Removed_all int
  | Found_invalid nat string string
  | Invalidating_outputs string
  | Invalidating bool nat
  | Invalidated string nat
  | Pruning_Error error

text \<open>
  The calls that change a collection. \<^verbatim>\<open>Tx_updateMany ids h\<close> is
  \<^verbatim>\<open>transactionModel.collection.updateMany({txid: {$in: ids}}, {$set: {blockHeight: h}})\<close>;
  \<^verbatim>\<open>Coin_updateMany_spent ids h\<close> selects by \<^verbatim>\<open>spentTxid\<close> and sets \<^verbatim>\<open>spentHeight\<close>;
  \<^verbatim>\<open>Coin_updateMany_mint ids h\<close> selects by \<^verbatim>\<open>mintTxid\<close> and sets \<^verbatim>\<open>mintHeight\<close>;
  \<^verbatim>\<open>Tx_deleteMany c n ids h\<close> is
  \<^verbatim>\<open>deleteMany({chain: c, network: n, txid: {$in: ids}, blockHeight: h})\<close> and
  \<^verbatim>\<open>Coin_deleteMany c n ids h\<close> is
  \<^verbatim>\<open>deleteMany({chain: c, network: n, mintTxid: {$in: ids}, mintHeight: h})\<close>.
\<close>

datatype mutation =
    Tx_updateMany "string list" int
  | Coin_updateMany_spent "string list" int
  | Coin_updateMany_mint "string list" int
  | Tx_deleteMany string string "string list" int
  | Coin_deleteMany string string "string list" int

text \<open>
  The state the service works on: its own two flags, the two collections, and two
  traces that only grow: the lines logged and the mutations sent to the collections,
  oldest first.
\<close>

record state =
  stopping :: bool
  running :: bool
  transactions :: "tx list"
  coins :: "coin list"
  logged :: "logline list"
  issued :: "mutation list"

text \<open>
  What the module reads from outside \<^verbatim>\<open>pruning.ts\<close>: the resolved command line
  (\<^verbatim>\<open>CHAIN\<close>, \<^verbatim>\<open>NETWORK\<close>, \<^verbatim>\<open>MEMPOOL_AGE\<close> and the truth values of \<^verbatim>\<open>args.OLD\<close>,
  \<^verbatim>\<open>args.INVALID\<close>, \<^verbatim>\<open>args.DRY\<close>), the two members of \<^verbatim>\<open>SpentHeightIndicators\<close> it
  uses, \<^verbatim>\<open>Config.chainNetworks()\<close>, the generator
  \<^verbatim>\<open>transactionModel.yieldRelatedOutputs\<close> (a function of the collections and the seed
  txid, giving the coins in the order it yields them) and the clock \<^verbatim>\<open>Date.now()\<close>.
  None of them is defined in \<^verbatim>\<open>pruning.ts\<close>, so each is a parameter.
\<close>

record env =
  CHAIN :: "string option"
  NETWORK :: "string option"
  MEMPOOL_AGE :: int
  OLD :: bool
  INVALID :: bool
  DRY :: bool
  conflicting :: int
  unspent :: int
  chainNetworks :: "doc list"
  yieldRelatedOutputs :: "tx list \<Rightarrow> coin list \<Rightarrow> string \<Rightarrow> coin list"
  now :: int

definition ONE_MIN :: int where
  "ONE_MIN = 1000 * 60"

definition ONE_HOUR :: int where
  "ONE_HOUR = 60 * ONE_MIN"

definition ONE_DAY :: int where
  "ONE_DAY = 24 * ONE_HOUR"

section \<open>JavaScript values\<close>

text \<open>A string is truthy unless it is missing or empty.\<close>

fun truthy :: "string option \<Rightarrow> bool" where
  "truthy None = False"
| "truthy (Some s) = (s \<noteq> [])"

text \<open>
  \<^verbatim>\<open>Set.prototype.add\<close> on a \<^verbatim>\<open>Set<string>\<close>, kept as the list of its members in
  insertion order, which is the order \<^verbatim>\<open>Array.from\<close> returns.
\<close>

definition set_add :: "string \<Rightarrow> string list \<Rightarrow> string list" where
  "set_add x xs = (if x \<in> set xs then xs else xs @ [x])"

definition info :: "logline \<Rightarrow> state \<Rightarrow> state" where
  "info l s = s\<lparr>logged := logged s @ [l]\<rparr>"

section \<open>The collections\<close>

text \<open>
  A call to a collection is taken to succeed and to act in one step: \<^verbatim>\<open>find\<close> and
  \<^verbatim>\<open>countDocuments\<close> filter the list, \<^verbatim>\<open>updateMany\<close> maps over it, \<^verbatim>\<open>deleteMany\<close>
  removes the matching documents. In \<^verbatim>\<open>{spentTxid: {$in: ids}}\<close> a coin without the field
  matches no string.
\<close>

fun spent_in :: "string option \<Rightarrow> string list \<Rightarrow> bool" where
  "spent_in None ids = False"
| "spent_in (Some s) ids = (s \<in> set ids)"

fun effect :: "mutation \<Rightarrow> state \<Rightarrow> state" where
  "effect (Tx_updateMany ids h) s =
     s\<lparr>transactions :=
         map (\<lambda>t. if txid t \<in> set ids then t\<lparr>blockHeight := h\<rparr> else t) (transactions s)\<rparr>"
| "effect (Coin_updateMany_spent ids h) s =
     s\<lparr>coins :=
         map (\<lambda>c. if spent_in (spentTxid c) ids then c\<lparr>spentHeight := h\<rparr> else c) (coins s)\<rparr>"
| "effect (Coin_updateMany_mint ids h) s =
     s\<lparr>coins :=
         map (\<lambda>c. if mintTxid c \<in> set ids then c\<lparr>mintHeight := h\<rparr> else c) (coins s)\<rparr>"
| "effect (Tx_deleteMany c n ids h) s =
     s\<lparr>transactions :=
         filter (\<lambda>t. \<not> (chain t = c \<and> network t = n \<and> txid t \<in> set ids \<and> blockHeight t = h))
           (transactions s)\<rparr>"
| "effect (Coin_deleteMany c n ids h) s =
     s\<lparr>coins :=
         filter (\<lambda>k. \<not> (chain k = c \<and> network k = n \<and> mintTxid k \<in> set ids \<and> mintHeight k = h))
           (coins s)\<rparr>"

definition perform :: "mutation \<Rightarrow> state \<Rightarrow> state" where
  "perform m s = (effect m s)\<lparr>issued := issued s @ [m]\<rparr>"

section \<open>The cascades\<close>

text \<open>
  \<^verbatim>\<open>clearInvalid\<close> (lines 197 to 219) and \<^verbatim>\<open>removeOldMempool\<close> (lines 221 to 230). Each
  logs one line, returns at once under \<^verbatim>\<open>args.DRY\<close>, and otherwise hands the list of its
  calls to \<^verbatim>\<open>Promise.all\<close>. The calls are performed here in the order of the array; that
  any other order gives the same state is proved below.
\<close>

definition clearInvalid_calls :: "env \<Rightarrow> string list \<Rightarrow> mutation list" where
  "clearInvalid_calls e invalidTxids =
     [Tx_updateMany invalidTxids (conflicting e),
      Coin_updateMany_spent invalidTxids (unspent e),
      Coin_updateMany_mint invalidTxids (conflicting e)]"

definition clearInvalid :: "env \<Rightarrow> string list \<Rightarrow> state \<Rightarrow> state" where
  "clearInvalid e invalidTxids s =
     (let s = info (Invalidating (DRY e) (length invalidTxids)) s in
      if DRY e then s else fold perform (clearInvalid_calls e invalidTxids) s)"

definition removeOldMempool_calls :: "string \<Rightarrow> string \<Rightarrow> string list \<Rightarrow> mutation list" where
  "removeOldMempool_calls c n txids =
     [Tx_deleteMany c n txids (- 1), Coin_deleteMany c n txids (- 1)]"

definition removeOldMempool :: "env \<Rightarrow> string \<Rightarrow> string \<Rightarrow> string list \<Rightarrow> state \<Rightarrow> state" where
  "removeOldMempool e c n txids s =
     (let s = info (Removing (DRY e) (length txids)) s in
      if DRY e then s else fold perform (removeOldMempool_calls c n txids) s)"

section \<open>The closure loop\<close>

text \<open>
  The \<^verbatim>\<open>for await\<close> loop of lines 124 to 135, which lines 172 to 183 repeat word for
  word. It leaves in one of three ways: \<^verbatim>\<open>return cb(new Error(...))\<close> on a coin with a
  confirmed height, \<^verbatim>\<open>throw new Error(...)\<close> when \<^verbatim>\<open>count\<close> passes 50, or by exhausting
  the generator, with the set of spending txids and the count. The test
  \<^verbatim>\<open>if (coin.spentTxid)\<close> fails for a missing and for an empty string.
\<close>

text \<open>A coin shows a confirmed height: the test of lines 125 and 173.\<close>

definition confirmed :: "coin \<Rightarrow> bool" where
  "confirmed k = (mintHeight k \<ge> 0 \<or> spentHeight k \<ge> 0)"

datatype loop_exit =
    Returned_cb error
  | Threw error
  | Exhausted "string list" nat

fun for_await :: "string \<Rightarrow> coin list \<Rightarrow> string list \<Rightarrow> nat \<Rightarrow> loop_exit" where
  "for_await seed [] spentTxids cnt = Exhausted spentTxids cnt"
| "for_await seed (c # rest) spentTxids cnt =
     (if confirmed c then Returned_cb (Invalid_coin (mintTxid c))
      else if cnt + 1 > 50 then Threw (Too_many_decendents seed)
      else for_await seed rest
             (case spentTxid c of
                None \<Rightarrow> spentTxids
              | Some x \<Rightarrow> if x = [] then spentTxids else set_add x spentTxids)
             (cnt + 1))"

text \<open>
  The coins the loop takes from the generator before it leaves: the generator is lazy,
  so a coin behind the one at which the loop returns or throws is never yielded.
\<close>

fun yielded :: "coin list \<Rightarrow> nat \<Rightarrow> coin list" where
  "yielded [] cnt = []"
| "yielded (c # rest) cnt =
     (if confirmed c then [c]
      else if cnt + 1 > 50 then [c]
      else c # yielded rest (cnt + 1))"

section \<open>One candidate\<close>

text \<open>
  How an \<^verbatim>\<open>async transform\<close> leaves the stream: it calls \<^verbatim>\<open>cb()\<close>, it calls
  \<^verbatim>\<open>cb(err)\<close>, or it throws, and then \<^verbatim>\<open>cb\<close> is never called.
\<close>

datatype callback =
    Cb_ok
  | Cb_error error
  | Cb_never error

definition transform_old ::
  "env \<Rightarrow> string \<Rightarrow> string \<Rightarrow> tx \<Rightarrow> state \<Rightarrow> callback \<times> state" where
  "transform_old e c n t s =
     (if stopping s then (Cb_error Stopping, s)
      else
        let s = info (Finding (txid t)) s;
            outputGenerator = yieldRelatedOutputs e (transactions s) (coins s) (txid t)
        in case for_await (txid t) outputGenerator [] 0 of
             Returned_cb err \<Rightarrow> (Cb_error err, s)
           | Threw err \<Rightarrow> (Cb_never err, s)
           | Exhausted spentTxids cnt \<Rightarrow>
               let uniqueTxids = set_add (txid t) spentTxids;
                   s = removeOldMempool e c n uniqueTxids s;
                   s = info (Removed (txid t) cnt) s
               in (Cb_ok, s))"

definition transform_invalid :: "env \<Rightarrow> tx \<Rightarrow> state \<Rightarrow> callback \<times> state" where
  "transform_invalid e t s =
     (if stopping s then (Cb_error Stopping, s)
      else
        let s = info (Invalidating_outputs (txid t)) s;
            outputGenerator = yieldRelatedOutputs e (transactions s) (coins s) (txid t)
        in case for_await (txid t) outputGenerator [] 0 of
             Returned_cb err \<Rightarrow> (Cb_error err, s)
           | Threw err \<Rightarrow> (Cb_never err, s)
           | Exhausted spentTxids cnt \<Rightarrow>
               let uniqueTxids = set_add (txid t) spentTxids;
                   s = clearInvalid e uniqueTxids s;
                   s = info (Invalidated (txid t) cnt) s
               in (Cb_ok, s))"

section \<open>The stream pipelines\<close>

text \<open>
  The promise built around \<^verbatim>\<open>find(...).pipe(new Transform(...))\<close>. The stream hands the
  documents of the query to \<^verbatim>\<open>transform\<close> one at a time and waits for \<^verbatim>\<open>cb\<close>. After
  \<^verbatim>\<open>cb()\<close> it goes on; when the documents are used up it emits \<^verbatim>\<open>'finish'\<close> and the
  promise resolves. After \<^verbatim>\<open>cb(err)\<close> it emits \<^verbatim>\<open>'error'\<close> and the promise rejects.
  When \<^verbatim>\<open>transform\<close> throws, nothing awaits the promise the \<^verbatim>\<open>async\<close> function
  returned and \<^verbatim>\<open>cb\<close> is never called: the stream emits neither event and the promise
  stays pending. The documents are those that match when the query is made.
\<close>

datatype promise =
    Resolved
  | Rejected error
  | Pending

fun pipe :: "(tx \<Rightarrow> state \<Rightarrow> callback \<times> state) \<Rightarrow> tx list \<Rightarrow> state \<Rightarrow> promise \<times> state" where
  "pipe transform [] s = (Resolved, s)"
| "pipe transform (data # rest) s =
     (let (cb, s') = transform data s in
      case cb of
        Cb_ok \<Rightarrow> pipe transform rest s'
      | Cb_error err \<Rightarrow> (Rejected err, s')
      | Cb_never err \<Rightarrow> (Pending, s'))"

text \<open>\<^verbatim>\<open>await p; rest\<close>: the rest runs only once \<^verbatim>\<open>p\<close> has resolved.\<close>

fun await :: "promise \<times> state \<Rightarrow> (state \<Rightarrow> promise \<times> state) \<Rightarrow> promise \<times> state" where
  "await (Resolved, s) rest = rest s"
| "await (Rejected err, s) rest = (Rejected err, s)"
| "await (Pending, s) rest = (Pending, s)"

text \<open>
  \<^verbatim>\<open>new Date(value)\<close>: a time value beyond 8.64e15 milliseconds on either side of the
  epoch gives an invalid date, which has no time value.
\<close>

definition Date :: "int \<Rightarrow> int option" where
  "Date v = (if \<bar>v\<bar> \<le> 8640000000000000 then Some v else None)"

text \<open>
  The filter of lines 102 to 107 and 111. No document is before an invalid date.
\<close>

definition old_mempool :: "string \<Rightarrow> string \<Rightarrow> int option \<Rightarrow> tx \<Rightarrow> bool" where
  "old_mempool c n oldTime t =
     (chain t = c \<and> network t = n \<and> blockHeight t = - 1
      \<and> (case oldTime of None \<Rightarrow> False | Some v \<Rightarrow> blockTimeNormalized t < v))"

definition processOldMempoolTxs ::
  "env \<Rightarrow> string \<Rightarrow> string \<Rightarrow> int \<Rightarrow> state \<Rightarrow> promise \<times> state" where
  "processOldMempoolTxs e c n days s =
     (let oldTime = Date (now e - days * ONE_DAY);
          found = filter (old_mempool c n oldTime) (transactions s);
          s = info (Found_outdated (length found) c n) s
      in await (pipe (transform_old e c n) found s)
           (\<lambda>s. (Resolved, info (Removed_all days) s)))"

text \<open>The filter of lines 151 to 155 and 159.\<close>

definition invalid_tx :: "string \<Rightarrow> string \<Rightarrow> tx \<Rightarrow> bool" where
  "invalid_tx c n t = (chain t = c \<and> network t = n \<and> blockHeight t = - 3)"

definition processAllInvalidTxs :: "env \<Rightarrow> string \<Rightarrow> string \<Rightarrow> state \<Rightarrow> promise \<times> state" where
  "processAllInvalidTxs e c n s =
     (let found = filter (invalid_tx c n) (transactions s);
          s = info (Found_invalid (length found) c n) s
      in pipe (transform_invalid e) found s)"

section \<open>One run\<close>

text \<open>
  The two statements of lines 81 and 82, which lines 89 and 90 repeat:
  \<^verbatim>\<open>args.OLD && await ...; args.INVALID && await ...\<close>.
\<close>

definition process_pair :: "env \<Rightarrow> string \<Rightarrow> string \<Rightarrow> state \<Rightarrow> promise \<times> state" where
  "process_pair e c n s =
     await (if OLD e then processOldMempoolTxs e c n (MEMPOOL_AGE e) s else (Resolved, s))
       (\<lambda>s. if INVALID e then processAllInvalidTxs e c n s else (Resolved, s))"

text \<open>The body of the loop, lines 85 to 90, and the loop of lines 84 to 91.\<close>

definition loop_body :: "env \<Rightarrow> doc \<Rightarrow> state \<Rightarrow> promise \<times> state" where
  "loop_body e chainNetwork s =
     (if chain chainNetwork = [] \<or> network chainNetwork = [] then (Rejected Config_structure, s)
      else process_pair e (chain chainNetwork) (network chainNetwork) s)"

fun for_chainNetworks :: "env \<Rightarrow> doc list \<Rightarrow> state \<Rightarrow> promise \<times> state" where
  "for_chainNetworks e [] s = (Resolved, s)"
| "for_chainNetworks e (chainNetwork # rest) s =
     await (loop_body e chainNetwork s) (for_chainNetworks e rest)"

text \<open>The \<^verbatim>\<open>try\<close> block, lines 80 to 92.\<close>

definition try_block :: "env \<Rightarrow> state \<Rightarrow> promise \<times> state" where
  "try_block e s =
     (case (CHAIN e, NETWORK e) of
        (Some c, Some n) \<Rightarrow>
          if c \<noteq> [] \<and> n \<noteq> [] then process_pair e c n s
          else for_chainNetworks e (chainNetworks e) s
      | _ \<Rightarrow> for_chainNetworks e (chainNetworks e) s)"

text \<open>
  \<^verbatim>\<open>start\<close> and \<^verbatim>\<open>stop\<close> only set the timer and the flag \<^verbatim>\<open>stopping\<close>; the flag is
  read from the state, and the triggers of the timer are the events of the histories
  below.

  \<^verbatim>\<open>detectAndClear\<close> in its two parts. \<^verbatim>\<open>enter\<close> is lines 76 and 77: no result when
  the call returns at once, else the state with the latch taken. \<^verbatim>\<open>settle\<close> is the
  \<^verbatim>\<open>try\<close>, \<^verbatim>\<open>catch\<close> and \<^verbatim>\<open>finally\<close> of lines 79 to 97; while the block is pending,
  \<^verbatim>\<open>finally\<close> does not run.
\<close>

definition enter :: "state \<Rightarrow> state option" where
  "enter s = (if running s then None else Some (s\<lparr>running := True\<rparr>))"

definition settle :: "env \<Rightarrow> state \<Rightarrow> promise \<times> state" where
  "settle e s =
     (let (p, s') = try_block e s in
      case p of
        Resolved \<Rightarrow> (Resolved, s'\<lparr>running := False\<rparr>)
      | Rejected err \<Rightarrow> (Resolved, (info (Pruning_Error err) s')\<lparr>running := False\<rparr>)
      | Pending \<Rightarrow> (Pending, s'))"

definition detectAndClear :: "env \<Rightarrow> state \<Rightarrow> promise \<times> state" where
  "detectAndClear e s =
     (case enter s of
        None \<Rightarrow> (Resolved, s)
      | Some s' \<Rightarrow> settle e s')"

section \<open>Triggers and runs over time\<close>

text \<open>
  JavaScript runs one callback at a time, so a call of \<^verbatim>\<open>detectAndClear\<close> executes lines
  76 and 77 without interruption and gives way only at an \<^verbatim>\<open>await\<close>. A history of the
  service is therefore a sequence of two kinds of events. A trigger: the timer or
  \<^verbatim>\<open>start\<close> calls \<^verbatim>\<open>detectAndClear\<close>, which returns at once or takes the latch. And
  the work of a run: the oldest run that has taken the latch and not yet run its \<^verbatim>\<open>try\<close>
  block runs it now, with all it logs and sends; if the block settles, \<^verbatim>\<open>catch\<close> and
  \<^verbatim>\<open>finally\<close> follow and the run is over, and if the block stays pending, the run stays
  for ever, with what it has done so far. The block is taken as a whole: a trigger that
  arrives between two of its steps reads only \<^verbatim>\<open>running\<close>, which the block does not
  write. Beside the state, a history keeps the runs that have taken the latch and are
  not over, oldest first.
\<close>

datatype event =
    Trigger
  | Work

datatype phase =
    Started
  | Hung

fun advance :: "env \<Rightarrow> state \<Rightarrow> phase list \<Rightarrow> state \<times> phase list" where
  "advance e s [] = (s, [])"
| "advance e s (Hung # runs) = (let (s', runs') = advance e s runs in (s', Hung # runs'))"
| "advance e s (Started # runs) =
     (let (p, s') = settle e s in
      case p of
        Pending \<Rightarrow> (s', Hung # runs)
      | _ \<Rightarrow> (s', runs))"

fun step :: "env \<Rightarrow> event \<Rightarrow> state \<times> phase list \<Rightarrow> state \<times> phase list" where
  "step e Trigger (s, runs) =
     (case enter s of
        None \<Rightarrow> (s, runs)
      | Some s' \<Rightarrow> (s', runs @ [Started]))"
| "step e Work (s, runs) = advance e s runs"

section \<open>Example data\<close>

text \<open>
  A generator for the examples: the coins the seed minted, in storage order. On a store
  where no output of the seed has a spender with outputs of its own, these are the coins
  a traversal from the seed reaches.
\<close>

definition seed_outputs :: "tx list \<Rightarrow> coin list \<Rightarrow> string \<Rightarrow> coin list" where
  "seed_outputs txs cs seed = filter (\<lambda>k. mintTxid k = seed) cs"

definition env0 :: env where
  "env0 =
     \<lparr>CHAIN = None, NETWORK = None, MEMPOOL_AGE = 7, OLD = True, INVALID = True, DRY = False,
      conflicting = - 3, unspent = - 2, chainNetworks = [],
      yieldRelatedOutputs = seed_outputs, now = 1000000000\<rparr>"

definition mk_tx :: "string \<Rightarrow> string \<Rightarrow> int \<Rightarrow> tx" where
  "mk_tx c i h =
     \<lparr>chain = c, network = ''main'', txid = i, blockHeight = h, blockTimeNormalized = 0\<rparr>"

definition mk_coin :: "string \<Rightarrow> string \<Rightarrow> int \<Rightarrow> string option \<Rightarrow> int \<Rightarrow> coin" where
  "mk_coin c m mh sp sh =
     \<lparr>chain = c, network = ''main'', mintTxid = m, mintHeight = mh, spentTxid = sp,
      spentHeight = sh\<rparr>"

definition mk_state :: "tx list \<Rightarrow> coin list \<Rightarrow> state" where
  "mk_state txs cs =
     \<lparr>stopping = False, running = False, transactions = txs, coins = cs, logged = [],
      issued = []\<rparr>"

text \<open>
  Fifty unconfirmed, unspent outputs of \<^verbatim>\<open>T\<close> followed by one output that shows the
  confirmed mint height 100.
\<close>

definition coins51 :: "coin list" where
  "coins51 =
     replicate 50 (mk_coin ''BTC'' ''T'' (- 1) None (- 2)) @ [mk_coin ''BTC'' ''T'' 100 None (- 2)]"

text \<open>
  \<^verbatim>\<open>T\<close> with three unconfirmed outputs, two of them spent by \<^verbatim>\<open>T2\<close>; \<^verbatim>\<open>T\<close> with one
  unconfirmed output and one that shows a confirmed mint height; \<^verbatim>\<open>T\<close> with its 51
  outputs of \<^verbatim>\<open>coins51\<close>; and \<^verbatim>\<open>T\<close> with 51 unconfirmed outputs.
\<close>

definition ex_state :: state where
  "ex_state =
     mk_state [mk_tx ''BTC'' ''T'' (- 1), mk_tx ''BTC'' ''T2'' (- 1)]
       [mk_coin ''BTC'' ''T'' (- 1) (Some ''T2'') (- 1), mk_coin ''BTC'' ''T'' (- 1) None (- 2),
        mk_coin ''BTC'' ''T'' (- 1) (Some ''T2'') (- 1)]"

definition ex_confirmed :: state where
  "ex_confirmed =
     mk_state [mk_tx ''BTC'' ''T'' (- 1)]
       [mk_coin ''BTC'' ''T'' (- 1) None (- 2), mk_coin ''BTC'' ''T'' 100 None (- 2)]"

definition ex_coins51 :: state where
  "ex_coins51 = mk_state [mk_tx ''BTC'' ''T'' (- 1)] coins51"

definition ex_many :: state where
  "ex_many =
     mk_state [mk_tx ''BTC'' ''T'' (- 1)] (replicate 51 (mk_coin ''BTC'' ''T'' (- 1) None (- 2)))"

text \<open>
  Two configured pairs. On \<^verbatim>\<open>BTC\<close> the old mempool transaction \<^verbatim>\<open>T\<close> has an output that
  shows a confirmed mint height; on \<^verbatim>\<open>BCH\<close> the old mempool transaction \<^verbatim>\<open>U\<close> has one
  unconfirmed output.
\<close>

definition env_two :: env where
  "env_two =
     env0\<lparr>INVALID := False,
          chainNetworks := [\<lparr>chain = ''BTC'', network = ''main''\<rparr>,
                            \<lparr>chain = ''BCH'', network = ''main''\<rparr>]\<rparr>"

definition ex_two :: state where
  "ex_two =
     mk_state [mk_tx ''BTC'' ''T'' (- 1), mk_tx ''BCH'' ''U'' (- 1)]
       [mk_coin ''BTC'' ''T'' 100 None (- 2), mk_coin ''BCH'' ''U'' (- 1) None (- 2)]"

text \<open>
  The txid \<^verbatim>\<open>T\<close> on two chains: flagged invalid on \<^verbatim>\<open>BTC\<close>, a mempool transaction on
  \<^verbatim>\<open>BCH\<close>, with one unspent output on each.
\<close>

definition ex_cross :: state where
  "ex_cross =
     mk_state [mk_tx ''BTC'' ''T'' (- 3), mk_tx ''BCH'' ''T'' (- 1)]
       [mk_coin ''BTC'' ''T'' (- 1) None (- 2), mk_coin ''BCH'' ''T'' (- 1) None (- 2)]"

text \<open>
  Two mempool transactions of \<^verbatim>\<open>BTC\<close>, each with one unspent output: \<^verbatim>\<open>A\<close> of time 0, and
  \<^verbatim>\<open>B\<close> whose time is the cutoff of \<^verbatim>\<open>env0\<close> for seven days, 395200000, so that \<^verbatim>\<open>B\<close> is
  not yet old at the clock reading of \<^verbatim>\<open>env0\<close> and is old one millisecond later.
\<close>

definition ex_clock :: state where
  "ex_clock =
     mk_state
       [mk_tx ''BTC'' ''A'' (- 1), (mk_tx ''BTC'' ''B'' (- 1))\<lparr>blockTimeNormalized := 395200000\<rparr>]
       [mk_coin ''BTC'' ''A'' (- 1) None (- 2), mk_coin ''BTC'' ''B'' (- 1) None (- 2)]"

text \<open>
  \<^verbatim>\<open>A\<close> of time 0 and \<^verbatim>\<open>C\<close> of time 900000000, which is not seven days old at the clock
  reading of \<^verbatim>\<open>env0\<close> nor a minute later.
\<close>

definition ex_young :: state where
  "ex_young =
     mk_state
       [mk_tx ''BTC'' ''A'' (- 1), (mk_tx ''BTC'' ''C'' (- 1))\<lparr>blockTimeNormalized := 900000000\<rparr>]
       [mk_coin ''BTC'' ''A'' (- 1) None (- 2), mk_coin ''BTC'' ''C'' (- 1) None (- 2)]"

text \<open>The one configured pair \<^verbatim>\<open>BTC\<close>, with both passes on.\<close>

definition env_one :: env where
  "env_one = env0\<lparr>chainNetworks := [\<lparr>chain = ''BTC'', network = ''main''\<rparr>]\<rparr>"

text \<open>
  A transaction matches the filter of the first \<^verbatim>\<open>deleteMany\<close> of line 227.
\<close>

definition deleted_by :: "string \<Rightarrow> string \<Rightarrow> string list \<Rightarrow> tx \<Rightarrow> bool" where
  "deleted_by c n ids t = (chain t = c \<and> network t = n \<and> txid t \<in> set ids \<and> blockHeight t = - 1)"

text \<open>
  In a history, at most one run is active, and \<^verbatim>\<open>running\<close> is set exactly while one is.
\<close>

definition latch_inv :: "state \<times> phase list \<Rightarrow> bool" where
  "latch_inv x = (length (snd x) \<le> 1 \<and> (running (fst x) = (snd x \<noteq> [])))"

text \<open>The two flags of the service are the same in two states.\<close>

definition same_flags :: "state \<Rightarrow> state \<Rightarrow> bool" where
  "same_flags s s' = (running s' = running s \<and> stopping s' = stopping s)"

text \<open>Neither collection changed and no mutation was sent between two states.\<close>

definition untouched :: "state \<Rightarrow> state \<Rightarrow> bool" where
  "untouched s s' =
     (transactions s' = transactions s \<and> coins s' = coins s \<and> issued s' = issued s)"

section \<open>The closure loop: lemmas\<close>

lemma set_add_set: "set (set_add x xs) = insert x (set xs)"
  by (auto simp: set_add_def)

lemma info_simps:
  "transactions (info l s) = transactions s"
  "coins (info l s) = coins s"
  "issued (info l s) = issued s"
  "stopping (info l s) = stopping s"
  "running (info l s) = running s"
  "logged (info l s) = logged s @ [l]"
  by (simp_all add: info_def)

lemma set_add_distinct: "distinct xs \<Longrightarrow> distinct (set_add x xs)"
  by (simp add: set_add_def)

lemma for_await_exhausts:
  "length cs + cnt \<le> 50 \<Longrightarrow> \<forall>k\<in>set cs. \<not> confirmed k \<Longrightarrow> distinct acc \<Longrightarrow>
   \<exists>ids. for_await seed cs acc cnt = Exhausted ids (cnt + length cs)
      \<and> distinct ids
      \<and> set ids = set acc \<union> {x. \<exists>k\<in>set cs. spentTxid k = Some x \<and> x \<noteq> []}"
proof (induction cs arbitrary: acc cnt)
  case Nil
  then show ?case by simp
next
  case (Cons c cs)
  let ?acc = "case spentTxid c of None \<Rightarrow> acc | Some x \<Rightarrow> if x = [] then acc else set_add x acc"
  have d: "distinct ?acc"
    using Cons.prems(3) by (simp add: set_add_distinct split: option.split)
  have s: "set ?acc = set acc \<union> {x. spentTxid c = Some x \<and> x \<noteq> []}"
    by (auto simp: set_add_set split: option.split)
  from Cons.prems have "length cs + (cnt + 1) \<le> 50" "\<forall>k\<in>set cs. \<not> confirmed k"
    by simp_all
  from Cons.IH [OF this d] obtain ids where
    ids: "for_await seed cs ?acc (cnt + 1) = Exhausted ids (cnt + 1 + length cs)"
      "distinct ids"
      "set ids = set ?acc \<union> {x. \<exists>k\<in>set cs. spentTxid k = Some x \<and> x \<noteq> []}"
    by blast
  have "for_await seed (c # cs) acc cnt = Exhausted ids (cnt + length (c # cs))"
    using Cons.prems ids(1) by simp
  moreover have "set ids = set acc \<union> {x. \<exists>k\<in>set (c # cs). spentTxid k = Some x \<and> x \<noteq> []}"
    unfolding ids(3) s by auto
  ultimately show ?case using ids(2) by blast
qed

lemma for_await_confirmed:
  "\<exists>k\<in>set (yielded cs cnt). confirmed k \<Longrightarrow>
   \<exists>k. find confirmed cs = Some k \<and> for_await seed cs acc cnt = Returned_cb (Invalid_coin (mintTxid k))"
  by (induction cs arbitrary: acc cnt) (auto split: if_splits)

lemma for_await_confirmed_take:
  "\<exists>k\<in>set (take (51 - cnt) cs). confirmed k \<Longrightarrow>
   \<exists>k. find confirmed cs = Some k \<and> for_await seed cs acc cnt = Returned_cb (Invalid_coin (mintTxid k))"
proof (induction cs arbitrary: acc cnt)
  case Nil
  then show ?case by simp
next
  case (Cons c cs)
  show ?case
  proof (cases "confirmed c")
    case True
    then show ?thesis by simp
  next
    case False
    have ex: "\<exists>k\<in>set (take (51 - (cnt + 1)) cs). confirmed k"
      using Cons.prems False by (auto simp: take_Cons' split: if_splits)
    have lt: "cnt < 50"
    proof (rule ccontr)
      assume "\<not> cnt < 50"
      then have "51 - (cnt + 1) = 0" by simp
      with ex show False by simp
    qed
    from Cons.IH [OF ex] False lt show ?thesis by simp
  qed
qed

lemma for_await_throws:
  "cnt \<le> 50 \<Longrightarrow> length (yielded cs cnt) + cnt > 50 \<Longrightarrow> \<forall>k\<in>set (yielded cs cnt). \<not> confirmed k \<Longrightarrow>
   for_await seed cs acc cnt = Threw (Too_many_decendents seed)"
  by (induction cs arbitrary: acc cnt) (auto split: if_splits)

lemma for_await_not_exhausted:
  "cnt \<le> 50 \<Longrightarrow> length (yielded cs cnt) + cnt > 50 \<Longrightarrow> for_await seed cs acc cnt \<noteq> Exhausted ids m"
  by (induction cs arbitrary: acc cnt) (auto split: if_splits)



lemma untouched_info: "untouched s (info l s)"
  by (simp add: untouched_def info_def)

lemmas ex_defs =
  ex_state_def ex_confirmed_def ex_coins51_def ex_many_def coins51_def mk_state_def mk_tx_def
  mk_coin_def env0_def seed_outputs_def env_two_def ex_two_def ex_cross_def ex_clock_def
  ex_young_def env_one_def

section \<open>The affected set of a candidate\<close>

text \<open>
  Claim C1. Take a candidate whose traversal yields at most 50 coins, every one with a
  negative \<^verbatim>\<open>mintHeight\<close> and a negative \<^verbatim>\<open>spentHeight\<close>. Then the loop runs to the end,
  \<^verbatim>\<open>uniqueTxids\<close> has no duplicates, its members are the seed txid and the \<^verbatim>\<open>spentTxid\<close> of
  every yielded coin that has one (a non-empty string), and this very list is the
  argument of \<^verbatim>\<open>removeOldMempool\<close> in the old-mempool transform and of \<^verbatim>\<open>clearInvalid\<close>
  in the invalid transform. The transforms are taken on a service that has not been
  stopped, since a stopped one leaves before the traversal.
\<close>

theorem closure_affected_set:
  assumes "\<not> stopping s"
    and "cs = yieldRelatedOutputs e (transactions s) (coins s) (txid t)"
    and "length cs \<le> 50"
    and "\<forall>k\<in>set cs. mintHeight k < 0 \<and> spentHeight k < 0"
  shows "\<exists>ids. distinct ids
      \<and> set ids = insert (txid t) {x. \<exists>k\<in>set cs. spentTxid k = Some x \<and> x \<noteq> []}
      \<and> transform_old e c n t s =
          (Cb_ok, info (Removed (txid t) (length cs))
                    (removeOldMempool e c n ids (info (Finding (txid t)) s)))
      \<and> transform_invalid e t s =
          (Cb_ok, info (Invalidated (txid t) (length cs))
                    (clearInvalid e ids (info (Invalidating_outputs (txid t)) s)))"
proof -
  from assms(4) have nc: "\<forall>k\<in>set cs. \<not> confirmed k"
    by (auto simp: confirmed_def)
  from for_await_exhausts [of cs 0 "[]" "txid t"] assms(3) nc
  obtain acc where acc: "for_await (txid t) cs [] 0 = Exhausted acc (length cs)"
    "distinct acc" "set acc = {x. \<exists>k\<in>set cs. spentTxid k = Some x \<and> x \<noteq> []}"
    by auto
  let ?ids = "set_add (txid t) acc"
  have "distinct ?ids"
    using acc(2) by (rule set_add_distinct)
  moreover have "set ?ids = insert (txid t) {x. \<exists>k\<in>set cs. spentTxid k = Some x \<and> x \<noteq> []}"
    by (simp add: set_add_set acc(3))
  moreover have "transform_old e c n t s =
      (Cb_ok, info (Removed (txid t) (length cs))
                (removeOldMempool e c n ?ids (info (Finding (txid t)) s)))"
    using assms(1) acc(1) by (simp add: transform_old_def info_simps assms(2) [symmetric])
  moreover have "transform_invalid e t s =
      (Cb_ok, info (Invalidated (txid t) (length cs))
                (clearInvalid e ?ids (info (Invalidating_outputs (txid t)) s)))"
    using assms(1) acc(1) by (simp add: transform_invalid_def info_simps assms(2) [symmetric])
  ultimately show ?thesis by blast
qed

text \<open>The theorem of claim C1 at \<^verbatim>\<open>T\<close> of \<^verbatim>\<open>ex_state\<close>: the affected set is \<^verbatim>\<open>{T, T2}\<close>.\<close>

theorem closure_affected_set_witness:
  "\<not> stopping ex_state
   \<and> length (seed_outputs (transactions ex_state) (coins ex_state) ''T'') \<le> 50
   \<and> (\<exists>ids. distinct ids \<and> set ids = {''T'', ''T2''}
        \<and> transform_old env0 ''BTC'' ''main'' (mk_tx ''BTC'' ''T'' (- 1)) ex_state =
            (Cb_ok, info (Removed ''T'' 3)
               (removeOldMempool env0 ''BTC'' ''main'' ids (info (Finding ''T'') ex_state))))"
proof -
  have h1: "\<not> stopping ex_state"
    by (simp add: ex_defs)
  have h2: "seed_outputs (transactions ex_state) (coins ex_state) ''T'' =
      yieldRelatedOutputs env0 (transactions ex_state) (coins ex_state) (txid (mk_tx ''BTC'' ''T'' (- 1)))"
    by (simp add: ex_defs)
  have h3: "length (seed_outputs (transactions ex_state) (coins ex_state) ''T'') \<le> 50"
    by (simp add: ex_defs)
  have h4: "\<forall>k\<in>set (seed_outputs (transactions ex_state) (coins ex_state) ''T'').
      mintHeight k < 0 \<and> spentHeight k < 0"
    by (simp add: ex_defs)
  have s: "insert ''T''
      {x. \<exists>k\<in>set (seed_outputs (transactions ex_state) (coins ex_state) ''T'').
            spentTxid k = Some x \<and> x \<noteq> []} = {''T'', ''T2''}"
    by (auto simp add: ex_defs)
  have l: "length (seed_outputs (transactions ex_state) (coins ex_state) ''T'') = 3"
    by (simp add: ex_defs)
  have t: "txid (mk_tx ''BTC'' ''T'' (- 1)) = ''T''"
    by (simp add: mk_tx_def)
  from closure_affected_set [OF h1 h2 h3 h4, of "''BTC''" "''main''"]
  obtain ids where "distinct ids" "set ids = {''T'', ''T2''}"
    "transform_old env0 ''BTC'' ''main'' (mk_tx ''BTC'' ''T'' (- 1)) ex_state =
       (Cb_ok, info (Removed ''T'' 3)
          (removeOldMempool env0 ''BTC'' ''main'' ids (info (Finding ''T'') ex_state)))"
    unfolding t l s by (elim exE conjE)
  then have "\<exists>ids. distinct ids \<and> set ids = {''T'', ''T2''}
        \<and> transform_old env0 ''BTC'' ''main'' (mk_tx ''BTC'' ''T'' (- 1)) ex_state =
            (Cb_ok, info (Removed ''T'' 3)
               (removeOldMempool env0 ''BTC'' ''main'' ids (info (Finding ''T'') ex_state)))"
    by (intro exI conjI)
  with h1 h3 show ?thesis
    by (intro conjI)
qed

section \<open>Aborted candidates\<close>

text \<open>
  Claim C2. If a coin the loop takes from the generator has a non-negative \<^verbatim>\<open>mintHeight\<close>
  or \<^verbatim>\<open>spentHeight\<close>, both transforms hand the error \<^verbatim>\<open>Invalid coin!\<close> to the callback.
  The state they leave differs from the one they found by the first log line only:
  neither cascade ran, no mutation was sent and both collections are as before.
\<close>

theorem confirmed_coin_aborts:
  assumes "\<not> stopping s"
    and "cs = yieldRelatedOutputs e (transactions s) (coins s) (txid t)"
    and "\<exists>k\<in>set (yielded cs 0). mintHeight k \<ge> 0 \<or> spentHeight k \<ge> 0"
  shows "\<exists>m. transform_old e c n t s = (Cb_error (Invalid_coin m), info (Finding (txid t)) s)
      \<and> transform_invalid e t s =
          (Cb_error (Invalid_coin m), info (Invalidating_outputs (txid t)) s)
      \<and> untouched s (snd (transform_old e c n t s))
      \<and> untouched s (snd (transform_invalid e t s))"
proof -
  from assms(3) have "\<exists>k\<in>set (yielded cs 0). confirmed k"
    by (simp add: confirmed_def)
  from for_await_confirmed [OF this, of "txid t" "[]"]
  obtain k where "find confirmed cs = Some k"
    and k: "for_await (txid t) cs [] 0 = Returned_cb (Invalid_coin (mintTxid k))"
    by blast
  have o: "transform_old e c n t s = (Cb_error (Invalid_coin (mintTxid k)), info (Finding (txid t)) s)"
    using assms(1) k by (simp add: transform_old_def info_simps assms(2) [symmetric])
  have i: "transform_invalid e t s =
      (Cb_error (Invalid_coin (mintTxid k)), info (Invalidating_outputs (txid t)) s)"
    using assms(1) k by (simp add: transform_invalid_def info_simps assms(2) [symmetric])
  show ?thesis
    unfolding o i by (simp add: untouched_info)
qed

text \<open>The theorem of claim C2 at \<^verbatim>\<open>ex_confirmed\<close>, whose second coin has mint height 100.\<close>

theorem confirmed_coin_aborts_witness:
  "\<not> stopping ex_confirmed
   \<and> list_ex (\<lambda>k. mintHeight k \<ge> 0 \<or> spentHeight k \<ge> 0)
        (yielded (seed_outputs (transactions ex_confirmed) (coins ex_confirmed) ''T'') 0)
   \<and> (\<exists>m. transform_old env0 ''BTC'' ''main'' (mk_tx ''BTC'' ''T'' (- 1)) ex_confirmed =
             (Cb_error (Invalid_coin m), info (Finding ''T'') ex_confirmed)
          \<and> transform_invalid env0 (mk_tx ''BTC'' ''T'' (- 1)) ex_confirmed =
             (Cb_error (Invalid_coin m), info (Invalidating_outputs ''T'') ex_confirmed)
          \<and> untouched ex_confirmed
               (snd (transform_old env0 ''BTC'' ''main'' (mk_tx ''BTC'' ''T'' (- 1)) ex_confirmed))
          \<and> untouched ex_confirmed
               (snd (transform_invalid env0 (mk_tx ''BTC'' ''T'' (- 1)) ex_confirmed)))"
proof -
  have h1: "\<not> stopping ex_confirmed"
    by (simp add: ex_defs)
  have h2: "seed_outputs (transactions ex_confirmed) (coins ex_confirmed) ''T'' =
      yieldRelatedOutputs env0 (transactions ex_confirmed) (coins ex_confirmed)
        (txid (mk_tx ''BTC'' ''T'' (- 1)))"
    by (simp add: ex_defs)
  have h3: "\<exists>k\<in>set (yielded (seed_outputs (transactions ex_confirmed) (coins ex_confirmed) ''T'') 0).
      mintHeight k \<ge> 0 \<or> spentHeight k \<ge> 0"
    by (simp add: ex_defs confirmed_def)
  have t: "txid (mk_tx ''BTC'' ''T'' (- 1)) = ''T''"
    by (simp add: mk_tx_def)
  from confirmed_coin_aborts [OF h1 h2 h3, of "''BTC''" "''main''"] h1 h3
  show ?thesis
    unfolding t list_ex_iff by (intro conjI)
qed

text \<open>
  Claim C3, as amended. If the loop takes more than 50 coins from the generator, the
  candidate ends without \<^verbatim>\<open>cb()\<close>, no mutation is sent and both collections are as
  before. If moreover none of these coins shows a confirmed height, both transforms
  throw \<^verbatim>\<open>has too many decendents\<close>, leaving the state they found but for the first log
  line.
\<close>

theorem too_many_aborts:
  assumes "\<not> stopping s"
    and "cs = yieldRelatedOutputs e (transactions s) (coins s) (txid t)"
    and "length (yielded cs 0) > 50"
  shows "untouched s (snd (transform_old e c n t s))
      \<and> untouched s (snd (transform_invalid e t s))
      \<and> fst (transform_old e c n t s) \<noteq> Cb_ok
      \<and> fst (transform_invalid e t s) \<noteq> Cb_ok
      \<and> ((\<forall>k\<in>set (yielded cs 0). mintHeight k < 0 \<and> spentHeight k < 0) \<longrightarrow>
           transform_old e c n t s =
             (Cb_never (Too_many_decendents (txid t)), info (Finding (txid t)) s)
         \<and> transform_invalid e t s =
             (Cb_never (Too_many_decendents (txid t)), info (Invalidating_outputs (txid t)) s))"
proof -
  have ne: "for_await (txid t) cs [] 0 \<noteq> Exhausted ids m" for ids m
    using for_await_not_exhausted [of 0 cs] assms(3) by simp
  have a: "untouched s (snd (transform_old e c n t s)) \<and> fst (transform_old e c n t s) \<noteq> Cb_ok"
    using assms(1) ne
    by (cases "for_await (txid t) cs [] 0")
      (auto simp add: transform_old_def info_simps assms(2) [symmetric] untouched_info)
  have b: "untouched s (snd (transform_invalid e t s)) \<and> fst (transform_invalid e t s) \<noteq> Cb_ok"
    using assms(1) ne
    by (cases "for_await (txid t) cs [] 0")
      (auto simp add: transform_invalid_def info_simps assms(2) [symmetric] untouched_info)
  have c: "transform_old e c n t s =
             (Cb_never (Too_many_decendents (txid t)), info (Finding (txid t)) s)
         \<and> transform_invalid e t s =
             (Cb_never (Too_many_decendents (txid t)), info (Invalidating_outputs (txid t)) s)"
    if "\<forall>k\<in>set (yielded cs 0). mintHeight k < 0 \<and> spentHeight k < 0"
  proof -
    from that have "\<forall>k\<in>set (yielded cs 0). \<not> confirmed k"
      by (auto simp: confirmed_def)
    with for_await_throws [of 0 cs "txid t" "[]"] assms(3)
    have "for_await (txid t) cs [] 0 = Threw (Too_many_decendents (txid t))"
      by simp
    then show ?thesis
      using assms(1)
      by (simp add: transform_old_def transform_invalid_def info_simps assms(2) [symmetric])
  qed
  from a b c show ?thesis by blast
qed

text \<open>The theorem of claim C3 at \<^verbatim>\<open>ex_many\<close>, where \<^verbatim>\<open>T\<close> has 51 unconfirmed outputs.\<close>

theorem too_many_aborts_witness:
  "\<not> stopping ex_many
   \<and> length (yielded (seed_outputs (transactions ex_many) (coins ex_many) ''T'') 0) > 50
   \<and> transform_old env0 ''BTC'' ''main'' (mk_tx ''BTC'' ''T'' (- 1)) ex_many =
       (Cb_never (Too_many_decendents ''T''), info (Finding ''T'') ex_many)
   \<and> transform_invalid env0 (mk_tx ''BTC'' ''T'' (- 1)) ex_many =
       (Cb_never (Too_many_decendents ''T''), info (Invalidating_outputs ''T'') ex_many)
   \<and> untouched ex_many
        (snd (transform_old env0 ''BTC'' ''main'' (mk_tx ''BTC'' ''T'' (- 1)) ex_many))"
proof -
  have h1: "\<not> stopping ex_many"
    by (simp add: ex_defs)
  have h2: "seed_outputs (transactions ex_many) (coins ex_many) ''T'' =
      yieldRelatedOutputs env0 (transactions ex_many) (coins ex_many)
        (txid (mk_tx ''BTC'' ''T'' (- 1)))"
    by (simp add: ex_defs)
  have y: "yielded (seed_outputs (transactions ex_many) (coins ex_many) ''T'') 0 =
      replicate 51 (mk_coin ''BTC'' ''T'' (- 1) None (- 2))"
    by (simp add: ex_defs confirmed_def numeral_eq_Suc)
  have h3: "length (yielded (seed_outputs (transactions ex_many) (coins ex_many) ''T'') 0) > 50"
    unfolding y by simp
  have h4: "\<forall>k\<in>set (yielded (seed_outputs (transactions ex_many) (coins ex_many) ''T'') 0).
      mintHeight k < 0 \<and> spentHeight k < 0"
    unfolding y by (simp add: mk_coin_def)
  have t: "txid (mk_tx ''BTC'' ''T'' (- 1)) = ''T''"
    by (simp add: mk_tx_def)
  from too_many_aborts [OF h1 h2 h3, of "''BTC''" "''main''"] h1 h3 h4
  show ?thesis
    unfolding t by blast
qed

text \<open>
  Claim C3 as the specification states it fails at \<^verbatim>\<open>ex_coins51\<close>: the loop takes 51
  coins, more than 50, and the candidate ends with \<^verbatim>\<open>Invalid coin!\<close>, not with
  \<^verbatim>\<open>has too many decendents\<close>, because the 51st coin shows a confirmed height and line
  125 tests it before line 128 counts it.
\<close>

theorem too_many_counterexample:
  "yieldRelatedOutputs env0 (transactions ex_coins51) (coins ex_coins51) ''T'' = coins51
   \<and> length (yielded coins51 0) = 51
   \<and> fst (transform_old env0 ''BTC'' ''main'' (mk_tx ''BTC'' ''T'' (- 1)) ex_coins51) =
       Cb_error (Invalid_coin ''T'')
   \<and> fst (transform_invalid env0 (mk_tx ''BTC'' ''T'' (- 1)) ex_coins51) =
       Cb_error (Invalid_coin ''T'')"
proof -
  have g: "yieldRelatedOutputs env0 (transactions ex_coins51) (coins ex_coins51) ''T'' = coins51"
    by (simp add: ex_defs)
  have y: "length (yielded coins51 0) = 51"
    by (simp add: coins51_def mk_coin_def confirmed_def numeral_eq_Suc)
  have f: "for_await ''T'' coins51 [] 0 = Returned_cb (Invalid_coin ''T'')"
    by (simp add: coins51_def mk_coin_def confirmed_def numeral_eq_Suc)
  have s: "\<not> stopping ex_coins51" "txid (mk_tx ''BTC'' ''T'' (- 1)) = ''T''"
    by (simp_all add: ex_coins51_def mk_state_def mk_tx_def)
  have o: "fst (transform_old env0 ''BTC'' ''main'' (mk_tx ''BTC'' ''T'' (- 1)) ex_coins51) =
       Cb_error (Invalid_coin ''T'')"
    using s g f by (simp add: transform_old_def info_simps)
  have i: "fst (transform_invalid env0 (mk_tx ''BTC'' ''T'' (- 1)) ex_coins51) =
       Cb_error (Invalid_coin ''T'')"
    using s g f by (simp add: transform_invalid_def info_simps)
  from g y o i show ?thesis
    by (intro conjI)
qed

text \<open>
  Claim C10. If one of the first 51 coins of the generator has a non-negative
  \<^verbatim>\<open>mintHeight\<close> or \<^verbatim>\<open>spentHeight\<close>, both transforms end with \<^verbatim>\<open>Invalid coin!\<close> for
  the first such coin, and so not with \<^verbatim>\<open>has too many decendents\<close>: the height test
  of a coin comes before the coin is counted.
\<close>

theorem integrity_check_first:
  assumes "\<not> stopping s"
    and "cs = yieldRelatedOutputs e (transactions s) (coins s) (txid t)"
    and "\<exists>k\<in>set (take 51 cs). mintHeight k \<ge> 0 \<or> spentHeight k \<ge> 0"
  shows "\<exists>k. find confirmed cs = Some k
      \<and> fst (transform_old e c n t s) = Cb_error (Invalid_coin (mintTxid k))
      \<and> fst (transform_invalid e t s) = Cb_error (Invalid_coin (mintTxid k))"
proof -
  from assms(3) have "\<exists>k\<in>set (take (51 - 0) cs). confirmed k"
    by (simp add: confirmed_def)
  from for_await_confirmed_take [OF this, of "txid t" "[]"]
  obtain k where k: "find confirmed cs = Some k"
    "for_await (txid t) cs [] 0 = Returned_cb (Invalid_coin (mintTxid k))"
    by blast
  then show ?thesis
    using assms(1)
    by (simp add: transform_old_def transform_invalid_def info_simps assms(2) [symmetric])
qed

text \<open>The theorem of claim C10 at \<^verbatim>\<open>ex_coins51\<close>, whose 51st coin is the confirmed one.\<close>

theorem integrity_check_first_witness:
  "\<not> stopping ex_coins51
   \<and> list_ex (\<lambda>k. mintHeight k \<ge> 0 \<or> spentHeight k \<ge> 0) (take 51 coins51)
   \<and> (\<exists>k. find confirmed coins51 = Some k
        \<and> fst (transform_old env0 ''BTC'' ''main'' (mk_tx ''BTC'' ''T'' (- 1)) ex_coins51) =
            Cb_error (Invalid_coin (mintTxid k))
        \<and> fst (transform_invalid env0 (mk_tx ''BTC'' ''T'' (- 1)) ex_coins51) =
            Cb_error (Invalid_coin (mintTxid k)))"
proof -
  have h1: "\<not> stopping ex_coins51"
    by (simp add: ex_defs)
  have h2: "coins51 =
      yieldRelatedOutputs env0 (transactions ex_coins51) (coins ex_coins51)
        (txid (mk_tx ''BTC'' ''T'' (- 1)))"
    by (simp add: ex_defs)
  have h3: "\<exists>k\<in>set (take 51 coins51). mintHeight k \<ge> 0 \<or> spentHeight k \<ge> 0"
    by (simp add: coins51_def mk_coin_def)
  from integrity_check_first [OF h1 h2 h3, of "''BTC''" "''main''"] h1 h3
  show ?thesis
    unfolding list_ex_iff by (intro conjI)
qed

section \<open>The cascades: dry run and invalidation\<close>

lemma effect_issued: "effect m (s\<lparr>issued := x\<rparr>) = (effect m s)\<lparr>issued := x\<rparr>"
  by (cases m) simp_all

lemma clearInvalid_calls_commute:
  assumes "x \<in> set (clearInvalid_calls e ids)" and "y \<in> set (clearInvalid_calls e ids)"
  shows "effect x \<circ> effect y = effect y \<circ> effect x"
proof
  fix s
  from assms show "(effect x \<circ> effect y) s = (effect y \<circ> effect x) s"
    by (auto simp: clearInvalid_calls_def intro!: state.equality)
qed

lemma clearInvalid_any_order:
  "mset ps = mset (clearInvalid_calls e ids) \<Longrightarrow>
   fold effect ps s = fold effect (clearInvalid_calls e ids) s"
proof -
  assume m: "mset ps = mset (clearInvalid_calls e ids)"
  then have "set ps = set (clearInvalid_calls e ids)"
    by (rule mset_eq_setD)
  then have "fold effect ps = fold effect (clearInvalid_calls e ids)"
    using m by (intro fold_multiset_equiv) (auto intro: clearInvalid_calls_commute)
  then show ?thesis by simp
qed

lemma clearInvalid_wet:
  "\<not> DRY e \<Longrightarrow> clearInvalid e ids s =
     (fold effect (clearInvalid_calls e ids) (info (Invalidating False (length ids)) s))
       \<lparr>issued := issued s @ clearInvalid_calls e ids\<rparr>"
  by (simp add: clearInvalid_def clearInvalid_calls_def perform_def info_def)

text \<open>
  Claim C4. Under \<^verbatim>\<open>args.DRY\<close> both cascades log their line, which carries the size of
  the affected set, and return: the state they leave is the one they found plus that
  line, so no mutation was sent and both collections are unchanged, whatever the
  affected set.
\<close>

theorem dry_run_no_mutation:
  assumes "DRY e"
  shows "clearInvalid e ids s = info (Invalidating True (length ids)) s
      \<and> removeOldMempool e c n ids s = info (Removing True (length ids)) s
      \<and> untouched s (clearInvalid e ids s)
      \<and> untouched s (removeOldMempool e c n ids s)"
  using assms by (simp add: clearInvalid_def removeOldMempool_def untouched_info)

text \<open>The theorem of claim C4 in a dry run over \<^verbatim>\<open>ex_state\<close> with the set \<^verbatim>\<open>{T2, T}\<close>.\<close>

theorem dry_run_no_mutation_witness:
  "DRY (env0\<lparr>DRY := True\<rparr>)
   \<and> clearInvalid (env0\<lparr>DRY := True\<rparr>) [''T2'', ''T''] ex_state =
       info (Invalidating True 2) ex_state
   \<and> removeOldMempool (env0\<lparr>DRY := True\<rparr>) ''BTC'' ''main'' [''T2'', ''T''] ex_state =
       info (Removing True 2) ex_state
   \<and> untouched ex_state (clearInvalid (env0\<lparr>DRY := True\<rparr>) [''T2'', ''T''] ex_state)
   \<and> untouched ex_state
        (removeOldMempool (env0\<lparr>DRY := True\<rparr>) ''BTC'' ''main'' [''T2'', ''T''] ex_state)"
proof -
  have h: "DRY (env0\<lparr>DRY := True\<rparr>)"
    by simp
  from dry_run_no_mutation [OF h, of "[''T2'', ''T'']" ex_state "''BTC''" "''main''"] h
  show ?thesis
    by (simp add: numeral_2_eq_2 untouched_info)
qed

text \<open>
  Claim C5, as amended. Outside a dry run, \<^verbatim>\<open>clearInvalid\<close> sends exactly three mutations: the
  update of \<^verbatim>\<open>blockHeight\<close> to \<^verbatim>\<open>conflicting\<close> on the transactions whose txid is in the
  set, the update of \<^verbatim>\<open>spentHeight\<close> to \<^verbatim>\<open>unspent\<close> on the coins whose \<^verbatim>\<open>spentTxid\<close> is in
  the set, and the update of \<^verbatim>\<open>mintHeight\<close> to \<^verbatim>\<open>conflicting\<close> on the coins whose
  \<^verbatim>\<open>mintTxid\<close> is in the set. Performed in any of their orders they leave the same state.
  In that state every transaction and every coin is the one before with at most these
  fields replaced, and the flags of the service are as before.
\<close>

theorem invalidate_cascade:
  assumes "\<not> DRY e"
  shows "issued (clearInvalid e ids s) =
           issued s @ [Tx_updateMany ids (conflicting e), Coin_updateMany_spent ids (unspent e),
                       Coin_updateMany_mint ids (conflicting e)]
      \<and> (\<forall>ps. mset ps = mset [Tx_updateMany ids (conflicting e),
                               Coin_updateMany_spent ids (unspent e),
                               Coin_updateMany_mint ids (conflicting e)] \<longrightarrow>
            clearInvalid e ids s =
              (fold effect ps (info (Invalidating False (length ids)) s))
                \<lparr>issued := issued (clearInvalid e ids s)\<rparr>)
      \<and> transactions (clearInvalid e ids s) =
           map (\<lambda>t. if txid t \<in> set ids then t\<lparr>blockHeight := conflicting e\<rparr> else t)
             (transactions s)
      \<and> coins (clearInvalid e ids s) =
           map (\<lambda>k. k\<lparr>spentHeight := if spent_in (spentTxid k) ids then unspent e else spentHeight k,
                      mintHeight := if mintTxid k \<in> set ids then conflicting e else mintHeight k\<rparr>)
             (coins s)
      \<and> stopping (clearInvalid e ids s) = stopping s
      \<and> running (clearInvalid e ids s) = running s"
proof -
  have w: "clearInvalid e ids s =
     (fold effect (clearInvalid_calls e ids) (info (Invalidating False (length ids)) s))
       \<lparr>issued := issued s @ clearInvalid_calls e ids\<rparr>"
    using assms by (rule clearInvalid_wet)
  have i: "issued (clearInvalid e ids s) = issued s @ clearInvalid_calls e ids"
    unfolding w by simp
  have o: "clearInvalid e ids s =
      (fold effect ps (info (Invalidating False (length ids)) s))
        \<lparr>issued := issued (clearInvalid e ids s)\<rparr>"
    if "mset ps = mset (clearInvalid_calls e ids)" for ps
    unfolding i using clearInvalid_any_order [OF that] w by simp
  have t: "transactions (clearInvalid e ids s) =
      map (\<lambda>t. if txid t \<in> set ids then t\<lparr>blockHeight := conflicting e\<rparr> else t) (transactions s)"
    unfolding w by (simp add: clearInvalid_calls_def info_def)
  have c: "coins (clearInvalid e ids s) =
      map (\<lambda>k. k\<lparr>spentHeight := if spent_in (spentTxid k) ids then unspent e else spentHeight k,
                 mintHeight := if mintTxid k \<in> set ids then conflicting e else mintHeight k\<rparr>)
        (coins s)"
    unfolding w by (simp add: clearInvalid_calls_def info_def)
  have f: "stopping (clearInvalid e ids s) = stopping s" "running (clearInvalid e ids s) = running s"
    unfolding w by (simp_all add: clearInvalid_calls_def info_def)
  from i o t c f show ?thesis
    unfolding clearInvalid_calls_def by blast
qed

text \<open>The theorem of claim C5 at \<^verbatim>\<open>ex_state\<close> with the set \<^verbatim>\<open>{T2, T}\<close>.\<close>

theorem invalidate_cascade_witness:
  "\<not> DRY env0
   \<and> issued (clearInvalid env0 [''T2'', ''T''] ex_state) =
       [Tx_updateMany [''T2'', ''T''] (- 3), Coin_updateMany_spent [''T2'', ''T''] (- 2),
        Coin_updateMany_mint [''T2'', ''T''] (- 3)]
   \<and> transactions (clearInvalid env0 [''T2'', ''T''] ex_state) =
       [mk_tx ''BTC'' ''T'' (- 3), mk_tx ''BTC'' ''T2'' (- 3)]
   \<and> coins (clearInvalid env0 [''T2'', ''T''] ex_state) =
       [mk_coin ''BTC'' ''T'' (- 3) (Some ''T2'') (- 2), mk_coin ''BTC'' ''T'' (- 3) None (- 2),
        mk_coin ''BTC'' ''T'' (- 3) (Some ''T2'') (- 2)]"
proof -
  have h: "\<not> DRY env0"
    by (simp add: env0_def)
  from invalidate_cascade [OF h, of "[''T2'', ''T'']" ex_state] h
  show ?thesis
    by (simp add: ex_defs)
qed

text \<open>
  Claim C5 as the specification states it fails in a dry run: over \<^verbatim>\<open>ex_state\<close> with the
  set \<^verbatim>\<open>{T2, T}\<close> the cascade sends no mutation, and \<^verbatim>\<open>T\<close> and \<^verbatim>\<open>T2\<close> keep the mempool
  height.
\<close>

theorem invalidate_cascade_counterexample:
  "DRY (env0\<lparr>DRY := True\<rparr>)
   \<and> issued (clearInvalid (env0\<lparr>DRY := True\<rparr>) [''T2'', ''T''] ex_state) = []
   \<and> transactions (clearInvalid (env0\<lparr>DRY := True\<rparr>) [''T2'', ''T''] ex_state) =
       [mk_tx ''BTC'' ''T'' (- 1), mk_tx ''BTC'' ''T2'' (- 1)]
   \<and> coins (clearInvalid (env0\<lparr>DRY := True\<rparr>) [''T2'', ''T''] ex_state) = coins ex_state"
  by (simp add: clearInvalid_def info_def ex_defs)

section \<open>Scope of the mutations\<close>

text \<open>
  Claim C6 fails on the code. \<^verbatim>\<open>removeOldMempool\<close> filters by chain and network, but the
  three updates of \<^verbatim>\<open>clearInvalid\<close> filter by txid alone. In \<^verbatim>\<open>ex_cross\<close> the invalid
  pass for \<^verbatim>\<open>BTC\<close> turns the \<^verbatim>\<open>BCH\<close> mempool transaction of the same txid into a
  conflicting one and marks its output as minted by a conflicting transaction.
\<close>

theorem clearInvalid_crosses_chains:
  "fst (processAllInvalidTxs env0 ''BTC'' ''main'' ex_cross) = Resolved
   \<and> transactions ex_cross = [mk_tx ''BTC'' ''T'' (- 3), mk_tx ''BCH'' ''T'' (- 1)]
   \<and> transactions (snd (processAllInvalidTxs env0 ''BTC'' ''main'' ex_cross)) =
       [mk_tx ''BTC'' ''T'' (- 3), mk_tx ''BCH'' ''T'' (- 3)]
   \<and> coins ex_cross =
       [mk_coin ''BTC'' ''T'' (- 1) None (- 2), mk_coin ''BCH'' ''T'' (- 1) None (- 2)]
   \<and> coins (snd (processAllInvalidTxs env0 ''BTC'' ''main'' ex_cross)) =
       [mk_coin ''BTC'' ''T'' (- 3) None (- 2), mk_coin ''BCH'' ''T'' (- 3) None (- 2)]
   \<and> issued (snd (processAllInvalidTxs env0 ''BTC'' ''main'' ex_cross)) =
       [Tx_updateMany [''T''] (- 3), Coin_updateMany_spent [''T''] (- 2),
        Coin_updateMany_mint [''T''] (- 3)]"
  by (simp add: processAllInvalidTxs_def transform_invalid_def clearInvalid_def
      clearInvalid_calls_def perform_def invalid_tx_def info_def set_add_def confirmed_def Let_def
      ex_defs)

text \<open>The sibling cascade keeps every record of another chain or network.\<close>

lemma removeOldMempool_scoped:
  "transactions (removeOldMempool e c n ids s) =
     filter (\<lambda>t. \<not> (\<not> DRY e \<and> deleted_by c n ids t)) (transactions s)
   \<and> coins (removeOldMempool e c n ids s) =
     filter (\<lambda>k. \<not> (\<not> DRY e \<and> chain k = c \<and> network k = n \<and> mintTxid k \<in> set ids
                     \<and> mintHeight k = - 1)) (coins s)"
  by (cases "DRY e")
    (simp_all add: removeOldMempool_def removeOldMempool_calls_def perform_def info_def
      deleted_by_def)

section \<open>A run over the configured pairs\<close>

lemma await_assoc: "await (await x f) g = await x (\<lambda>s. await (f s) g)"
proof (cases x)
  case (Pair p s)
  then show ?thesis by (cases p) simp_all
qed

lemma for_chainNetworks_append:
  "for_chainNetworks e (pre @ post) s =
     await (for_chainNetworks e pre s) (for_chainNetworks e post)"
proof (induction pre arbitrary: s)
  case Nil
  show ?case by simp
next
  case (Cons p pre)
  have "for_chainNetworks e (pre @ post) = (\<lambda>s. await (for_chainNetworks e pre s) (for_chainNetworks e post))"
    using Cons.IH by (intro ext)
  then show ?case
    by (simp add: await_assoc)
qed

lemma try_block_pairs:
  "\<not> (truthy (CHAIN e) \<and> truthy (NETWORK e)) \<Longrightarrow>
   try_block e s = for_chainNetworks e (chainNetworks e) s"
  by (auto simp: try_block_def split: option.splits)

lemma settle_not_rejected: "fst (settle e s) \<noteq> Rejected err"
  by (simp add: settle_def split: prod.splits promise.splits)

lemma settle_releases: "fst (settle e s) \<noteq> Pending \<Longrightarrow> \<not> running (snd (settle e s))"
  by (simp add: settle_def info_def split: prod.splits promise.splits)

text \<open>
  Claim C7, as amended. Let the run go through the configured pairs, let the pairs
  before \<^verbatim>\<open>p\<close> resolve and let the loop body reject at \<^verbatim>\<open>p\<close> (a callback error of one of
  the two pipelines, or the configuration error). Then \<^verbatim>\<open>detectAndClear\<close> resolves; the
  state it leaves is the one the failing pair left, plus the logged error and with the
  latch released. The pairs after \<^verbatim>\<open>p\<close> have no part in it: they are skipped. No call of
  \<^verbatim>\<open>detectAndClear\<close> ever rejects.
\<close>

theorem pair_failure_ends_run:
  assumes "\<not> running s"
    and "\<not> (truthy (CHAIN e) \<and> truthy (NETWORK e))"
    and "chainNetworks e = pre @ p # post"
    and "for_chainNetworks e pre (s\<lparr>running := True\<rparr>) = (Resolved, s1)"
    and "loop_body e p s1 = (Rejected err, s2)"
  shows "detectAndClear e s = (Resolved, (info (Pruning_Error err) s2)\<lparr>running := False\<rparr>)
      \<and> fst (detectAndClear e' s') \<noteq> Rejected err'"
proof -
  have "for_chainNetworks e (chainNetworks e) (s\<lparr>running := True\<rparr>) = (Rejected err, s2)"
    unfolding assms(3) for_chainNetworks_append using assms(4,5) by simp
  then have "try_block e (s\<lparr>running := True\<rparr>) = (Rejected err, s2)"
    using try_block_pairs [OF assms(2)] by simp
  then have "detectAndClear e s = (Resolved, (info (Pruning_Error err) s2)\<lparr>running := False\<rparr>)"
    using assms(1) by (simp add: detectAndClear_def enter_def settle_def)
  moreover have "fst (detectAndClear e' s') \<noteq> Rejected err'"
    by (simp add: detectAndClear_def enter_def settle_not_rejected)
  ultimately show ?thesis by simp
qed

text \<open>
  The theorem of claim C7 at \<^verbatim>\<open>env_two\<close> and \<^verbatim>\<open>ex_two\<close>: the pair \<^verbatim>\<open>BTC\<close> rejects with
  \<^verbatim>\<open>Invalid coin!\<close>, the error is logged and the run resolves.
\<close>

theorem pair_failure_ends_run_witness:
  "\<not> running ex_two
   \<and> chainNetworks env_two =
       [] @ \<lparr>chain = ''BTC'', network = ''main''\<rparr> # [\<lparr>chain = ''BCH'', network = ''main''\<rparr>]
   \<and> detectAndClear env_two ex_two =
       (Resolved,
        ex_two\<lparr>logged := [Found_outdated 1 ''BTC'' ''main'', Finding ''T'',
                           Pruning_Error (Invalid_coin ''T'')]\<rparr>)"
proof -
  let ?p = "\<lparr>chain = ''BTC'', network = ''main''\<rparr>"
  let ?s2 = "ex_two\<lparr>running := True,
                    logged := [Found_outdated 1 ''BTC'' ''main'', Finding ''T'']\<rparr>"
  have h1: "\<not> running ex_two"
    by (simp add: ex_defs)
  have h2: "\<not> (truthy (CHAIN env_two) \<and> truthy (NETWORK env_two))"
    by (simp add: ex_defs)
  have h3: "chainNetworks env_two = [] @ ?p # [\<lparr>chain = ''BCH'', network = ''main''\<rparr>]"
    by (simp add: ex_defs)
  have h4: "for_chainNetworks env_two [] (ex_two\<lparr>running := True\<rparr>) =
      (Resolved, ex_two\<lparr>running := True\<rparr>)"
    by simp
  have h5: "loop_body env_two ?p (ex_two\<lparr>running := True\<rparr>) = (Rejected (Invalid_coin ''T''), ?s2)"
    by (simp add: loop_body_def process_pair_def processOldMempoolTxs_def transform_old_def
        old_mempool_def Date_def ONE_DAY_def ONE_HOUR_def ONE_MIN_def info_def confirmed_def Let_def ex_defs)
  from pair_failure_ends_run [OF h1 h2 h3 h4 h5] h1 h3
  show ?thesis
    by (simp add: info_def ex_defs)
qed

lemma detectAndClear_two:
  "detectAndClear env_two ex_two =
     (Resolved,
      ex_two\<lparr>logged := [Found_outdated 1 ''BTC'' ''main'', Finding ''T'',
                         Pruning_Error (Invalid_coin ''T'')]\<rparr>)"
  by (simp add: detectAndClear_def enter_def settle_def try_block_def loop_body_def
      process_pair_def processOldMempoolTxs_def transform_old_def old_mempool_def Date_def ONE_DAY_def
      ONE_HOUR_def ONE_MIN_def info_def confirmed_def Let_def ex_defs)

text \<open>
  Claim C7 as the specification states it fails at \<^verbatim>\<open>env_two\<close> and \<^verbatim>\<open>ex_two\<close>. The
  failure of the pair \<^verbatim>\<open>BTC\<close> ends the run: nothing is logged or done for \<^verbatim>\<open>BCH\<close>, whose
  old mempool transaction \<^verbatim>\<open>U\<close> and its output stay in the store. A run over \<^verbatim>\<open>BCH\<close>
  alone removes both.
\<close>

theorem pair_failure_counterexample:
  "detectAndClear env_two ex_two =
     (Resolved,
      ex_two\<lparr>logged := [Found_outdated 1 ''BTC'' ''main'', Finding ''T'',
                         Pruning_Error (Invalid_coin ''T'')]\<rparr>)
   \<and> transactions (snd (detectAndClear env_two ex_two)) =
       [mk_tx ''BTC'' ''T'' (- 1), mk_tx ''BCH'' ''U'' (- 1)]
   \<and> transactions
        (snd (detectAndClear
               (env_two\<lparr>chainNetworks := [\<lparr>chain = ''BCH'', network = ''main''\<rparr>]\<rparr>) ex_two)) =
       [mk_tx ''BTC'' ''T'' (- 1)]
   \<and> coins
        (snd (detectAndClear
               (env_two\<lparr>chainNetworks := [\<lparr>chain = ''BCH'', network = ''main''\<rparr>]\<rparr>) ex_two)) =
       [mk_coin ''BTC'' ''T'' 100 None (- 2)]"
  by (simp add: detectAndClear_def enter_def settle_def try_block_def loop_body_def
      process_pair_def processOldMempoolTxs_def transform_old_def removeOldMempool_def
      removeOldMempool_calls_def perform_def set_add_def old_mempool_def Date_def ONE_DAY_def
      ONE_HOUR_def ONE_MIN_def info_def confirmed_def Let_def ex_defs)

section \<open>What a pass keeps\<close>

text \<open>
  A relation between states that is reflexive and transitive and that every transform
  respects is respected by the pipeline, and by a continuation after \<^verbatim>\<open>await\<close>.
\<close>

lemma pipe_keeps:
  assumes refl: "\<And>s. R s s"
    and trans: "\<And>a b c. R a b \<Longrightarrow> R b c \<Longrightarrow> R a c"
    and one: "\<And>d s. R s (snd (tr d s))"
  shows "R s (snd (pipe tr ds s))"
proof (induction ds arbitrary: s)
  case Nil
  show ?case by (simp add: refl)
next
  case (Cons d ds)
  obtain cb s' where t: "tr d s = (cb, s')"
    by (cases "tr d s")
  with one [of s d] have u: "R s s'"
    by simp
  show ?case
  proof (cases cb)
    case Cb_ok
    with t have "pipe tr (d # ds) s = pipe tr ds s'"
      by simp
    with trans [OF u Cons.IH [of s']] show ?thesis
      by simp
  next
    case (Cb_error err)
    with t u show ?thesis by simp
  next
    case (Cb_never err)
    with t u show ?thesis by simp
  qed
qed

lemma await_keeps:
  assumes trans: "\<And>a b c. R a b \<Longrightarrow> R b c \<Longrightarrow> R a c"
    and x: "R s (snd x)"
    and f: "\<And>s'. R s' (snd (f s'))"
  shows "R s (snd (await x f))"
proof (cases x)
  case (Pair p s')
  with x have "R s s'" by simp
  with Pair f [of s'] show ?thesis
    by (cases p) (auto intro: trans)
qed

subsection \<open>The flags of the service\<close>

lemma same_flags_refl: "same_flags s s"
  by (simp add: same_flags_def)

lemma same_flags_trans: "same_flags a b \<Longrightarrow> same_flags b c \<Longrightarrow> same_flags a c"
  by (simp add: same_flags_def)

lemma same_flags_info: "same_flags s (info l s') = same_flags s s'"
  by (simp add: same_flags_def info_def)

lemma same_flags_perform: "same_flags s (perform m s') = same_flags s s'"
  by (cases m) (simp_all add: same_flags_def perform_def)

lemma same_flags_fold: "same_flags s (fold perform ms s') = same_flags s s'"
  by (induction ms arbitrary: s') (simp_all add: same_flags_perform)

lemma same_flags_clearInvalid: "same_flags s (clearInvalid e ids s') = same_flags s s'"
  by (simp add: clearInvalid_def Let_def same_flags_fold same_flags_info)

lemma same_flags_removeOldMempool: "same_flags s (removeOldMempool e c n ids s') = same_flags s s'"
  by (simp add: removeOldMempool_def Let_def same_flags_fold same_flags_info)

lemma same_flags_transform_old: "same_flags s (snd (transform_old e c n d s))"
  by (simp add: transform_old_def Let_def same_flags_refl same_flags_info
      same_flags_removeOldMempool split: loop_exit.split)

lemma same_flags_transform_invalid: "same_flags s (snd (transform_invalid e d s))"
  by (simp add: transform_invalid_def Let_def same_flags_refl same_flags_info
      same_flags_clearInvalid split: loop_exit.split)

lemma same_flags_processOld: "same_flags s (snd (processOldMempoolTxs e c n days s))"
proof -
  have p: "same_flags s' (snd (pipe (transform_old e c n) ds s'))" for ds s'
    by (rule pipe_keeps [where R = same_flags])
      (auto intro: same_flags_refl same_flags_trans same_flags_transform_old)
  have i: "same_flags s (info l s)" for l
    by (simp add: same_flags_info same_flags_refl)
  show ?thesis
    unfolding processOldMempoolTxs_def Let_def
    by (rule await_keeps [where R = same_flags])
      (auto intro: same_flags_trans [OF i p] same_flags_trans simp: same_flags_info same_flags_refl)
qed

lemma same_flags_processInvalid: "same_flags s (snd (processAllInvalidTxs e c n s))"
proof -
  have p: "same_flags s' (snd (pipe (transform_invalid e) ds s'))" for ds s'
    by (rule pipe_keeps [where R = same_flags])
      (auto intro: same_flags_refl same_flags_trans same_flags_transform_invalid)
  have i: "same_flags s (info l s)" for l
    by (simp add: same_flags_info same_flags_refl)
  show ?thesis
    unfolding processAllInvalidTxs_def Let_def
    by (rule same_flags_trans [OF i p])
qed

lemma same_flags_process_pair: "same_flags s (snd (process_pair e c n s))"
  unfolding process_pair_def
  by (rule await_keeps [where R = same_flags])
    (auto intro: same_flags_trans same_flags_refl same_flags_processOld same_flags_processInvalid)

lemma same_flags_loop_body: "same_flags s (snd (loop_body e p s))"
  by (simp add: loop_body_def same_flags_refl same_flags_process_pair)

lemma same_flags_for: "same_flags s (snd (for_chainNetworks e ps s))"
proof (induction ps arbitrary: s)
  case Nil
  show ?case by (simp add: same_flags_refl)
next
  case (Cons p ps)
  show ?case
    unfolding for_chainNetworks.simps
    by (rule await_keeps [where R = same_flags])
      (auto intro: same_flags_trans same_flags_loop_body Cons.IH)
qed

lemma same_flags_try_block: "same_flags s (snd (try_block e s))"
  by (simp add: try_block_def same_flags_for same_flags_process_pair split: option.split)

subsection \<open>The collections in a dry run\<close>

lemma untouched_refl: "untouched s s"
  by (simp add: untouched_def)

lemma untouched_trans: "untouched s s1 \<Longrightarrow> untouched s1 s2 \<Longrightarrow> untouched s s2"
  by (simp add: untouched_def)

lemma untouched_info_iff: "untouched s (info l s') = untouched s s'"
  by (simp add: untouched_def info_def)

lemma untouched_removeOldMempool:
  "DRY e \<Longrightarrow> untouched s (removeOldMempool e c n ids s') = untouched s s'"
  by (simp add: removeOldMempool_def untouched_info_iff)

lemma untouched_clearInvalid:
  "DRY e \<Longrightarrow> untouched s (clearInvalid e ids s') = untouched s s'"
  by (simp add: clearInvalid_def untouched_info_iff)

lemma transform_old_dry: "DRY e \<Longrightarrow> untouched s (snd (transform_old e c n d s))"
  by (simp add: transform_old_def Let_def untouched_refl untouched_info_iff
      untouched_removeOldMempool split: loop_exit.split)

lemma transform_invalid_dry: "DRY e \<Longrightarrow> untouched s (snd (transform_invalid e d s))"
  by (simp add: transform_invalid_def Let_def untouched_refl untouched_info_iff
      untouched_clearInvalid split: loop_exit.split)

lemma processOld_dry:
  assumes "DRY e"
  shows "untouched s (snd (processOldMempoolTxs e c n days s))"
proof -
  have p: "untouched s' (snd (pipe (transform_old e c n) ds s'))" for ds s'
    by (rule pipe_keeps [where R = untouched])
      (auto intro: untouched_refl untouched_trans transform_old_dry [OF assms])
  have i: "untouched s (info l s)" for l
    by (rule untouched_info)
  show ?thesis
    unfolding processOldMempoolTxs_def Let_def
    by (rule await_keeps [where R = untouched])
      (auto intro: untouched_trans [OF i p] untouched_trans simp: untouched_info_iff untouched_refl)
qed

lemma processInvalid_dry:
  assumes "DRY e"
  shows "untouched s (snd (processAllInvalidTxs e c n s))"
proof -
  have p: "untouched s' (snd (pipe (transform_invalid e) ds s'))" for ds s'
    by (rule pipe_keeps [where R = untouched])
      (auto intro: untouched_refl untouched_trans transform_invalid_dry [OF assms])
  have i: "untouched s (info l s)" for l
    by (rule untouched_info)
  show ?thesis
    unfolding processAllInvalidTxs_def Let_def
    by (rule untouched_trans [OF i p])
qed

lemma process_pair_dry: "DRY e \<Longrightarrow> untouched s (snd (process_pair e c n s))"
  unfolding process_pair_def
  by (rule await_keeps [where R = untouched])
    (auto intro: untouched_trans untouched_refl processOld_dry processInvalid_dry)

lemma loop_body_dry: "DRY e \<Longrightarrow> untouched s (snd (loop_body e p s))"
  by (simp add: loop_body_def untouched_refl process_pair_dry)

lemma for_chainNetworks_dry: "DRY e \<Longrightarrow> untouched s (snd (for_chainNetworks e ps s))"
proof (induction ps arbitrary: s)
  case Nil
  show ?case by (simp add: untouched_refl)
next
  case (Cons p ps)
  show ?case
    unfolding for_chainNetworks.simps
    by (rule await_keeps [where R = untouched])
      (auto intro: untouched_trans loop_body_dry Cons.IH Cons.prems)
qed

lemma try_block_dry: "DRY e \<Longrightarrow> untouched s (snd (try_block e s))"
  by (simp add: try_block_def for_chainNetworks_dry process_pair_dry split: option.split)

section \<open>Old-mempool removal run twice\<close>

lemma removeOldMempool_transactions:
  "\<not> DRY e \<Longrightarrow>
   transactions (removeOldMempool e c n ids s) =
     filter (\<lambda>t. \<not> deleted_by c n ids t) (transactions s)"
  by (simp add: removeOldMempool_def removeOldMempool_calls_def perform_def info_def deleted_by_def)

lemma removeOldMempool_coins:
  "\<not> DRY e \<Longrightarrow>
   coins (removeOldMempool e c n ids s) =
     filter (\<lambda>k. \<not> (chain k = c \<and> network k = n \<and> mintTxid k \<in> set ids \<and> mintHeight k = - 1))
       (coins s)"
  by (simp add: removeOldMempool_def removeOldMempool_calls_def perform_def info_def)

lemma transform_old_ok:
  assumes "transform_old e c n d s = (Cb_ok, s')" and "\<not> DRY e"
  shows "\<exists>ids. txid d \<in> set ids
      \<and> transactions s' = filter (\<lambda>t. \<not> deleted_by c n ids t) (transactions s)"
proof -
  from assms(1) obtain acc m where
    s': "s' = info (Removed (txid d) m)
               (removeOldMempool e c n (set_add (txid d) acc) (info (Finding (txid d)) s))"
    by (auto simp: transform_old_def Let_def split: if_splits loop_exit.splits)
  have "txid d \<in> set (set_add (txid d) acc)"
    by (simp add: set_add_set)
  moreover have "transactions s' =
      filter (\<lambda>t. \<not> deleted_by c n (set_add (txid d) acc) t) (transactions s)"
    unfolding s' by (simp add: info_simps removeOldMempool_transactions [OF assms(2)])
  ultimately show ?thesis by blast
qed

lemma pipe_old_resolved:
  assumes "pipe (transform_old e c n) ds s = (Resolved, s')" and "\<not> DRY e"
  shows "set (transactions s') \<subseteq> set (transactions s)
      \<and> (\<forall>t\<in>set (transactions s'). \<forall>d\<in>set ds. \<not> deleted_by c n [txid d] t)"
  using assms(1)
proof (induction ds arbitrary: s)
  case Nil
  then show ?case by simp
next
  case (Cons d ds)
  obtain cb s1 where t: "transform_old e c n d s = (cb, s1)"
    by (cases "transform_old e c n d s")
  with Cons.prems have cb: "cb = Cb_ok" and r: "pipe (transform_old e c n) ds s1 = (Resolved, s')"
    by (auto split: callback.splits)
  from transform_old_ok [OF t [unfolded cb] assms(2)] obtain ids where
    ids: "txid d \<in> set ids"
      "transactions s1 = filter (\<lambda>t. \<not> deleted_by c n ids t) (transactions s)"
    by blast
  from Cons.IH [OF r] have ih: "set (transactions s') \<subseteq> set (transactions s1)"
    "\<forall>t\<in>set (transactions s'). \<forall>d\<in>set ds. \<not> deleted_by c n [txid d] t"
    by simp_all
  have sub: "set (transactions s') \<subseteq> set (transactions s)"
    using ih(1) ids(2) by auto
  have "\<not> deleted_by c n [txid d] t" if "t \<in> set (transactions s')" for t
  proof -
    from that ih(1) ids(2) have "\<not> deleted_by c n ids t" by auto
    with ids(1) show ?thesis
      by (auto simp: deleted_by_def)
  qed
  with ih(2) sub show ?case by simp
qed

lemma processOld_leaves_none:
  assumes "processOldMempoolTxs e c n days s = (Resolved, s1)" and "\<not> DRY e"
  shows "filter (old_mempool c n (Date (now e - days * ONE_DAY))) (transactions s1) = []"
proof -
  let ?old = "old_mempool c n (Date (now e - days * ONE_DAY))"
  let ?found = "filter ?old (transactions s)"
  let ?s0 = "info (Found_outdated (length ?found) c n) s"
  obtain p s' where p: "pipe (transform_old e c n) ?found ?s0 = (p, s')"
    by (cases "pipe (transform_old e c n) ?found ?s0")
  with assms(1) have "p = Resolved" and s1: "s1 = info (Removed_all days) s'"
    by (cases p; simp add: processOldMempoolTxs_def Let_def)+
  with p have r: "pipe (transform_old e c n) ?found ?s0 = (Resolved, s')"
    by simp
  from pipe_old_resolved [OF r assms(2)]
  have sub: "set (transactions s') \<subseteq> set (transactions s)"
    and no: "\<forall>t\<in>set (transactions s'). \<forall>d\<in>set ?found. \<not> deleted_by c n [txid d] t"
    by (simp_all add: info_simps)
  have "\<not> ?old t" if t: "t \<in> set (transactions s')" for t
  proof
    assume o: "?old t"
    with t sub have "t \<in> set ?found" by auto
    with no t have "\<not> deleted_by c n [txid t] t" by blast
    with o show False
      by (simp add: deleted_by_def old_mempool_def)
  qed
  then show ?thesis
    unfolding s1 by (simp add: info_simps filter_empty_conv)
qed

text \<open>
  Claim C9, as amended. Let one old-mempool pass over a pair resolve, and let a second
  pass with the same chain, network and days run on the state the first one left, at a
  clock reading \<^verbatim>\<open>later\<close> at which no transaction left in the store has crossed the age
  threshold: whatever is old at \<^verbatim>\<open>later\<close> was old at the first reading. Then the second
  pass sends no mutation and leaves both collections as they are; outside a dry run it
  finds no candidate at all and resolves after its two log lines. The cascade itself,
  applied twice with the same arguments, leaves the collections as after the first
  time.
\<close>

theorem old_mempool_idempotent:
  assumes "processOldMempoolTxs e c n days s = (Resolved, s1)"
    and "\<forall>t\<in>set (transactions s1).
           old_mempool c n (Date (later - days * ONE_DAY)) t \<longrightarrow>
           old_mempool c n (Date (now e - days * ONE_DAY)) t"
  shows "untouched s1 (snd (processOldMempoolTxs (e\<lparr>now := later\<rparr>) c n days s1))
      \<and> (\<not> DRY e \<longrightarrow>
           processOldMempoolTxs (e\<lparr>now := later\<rparr>) c n days s1 =
             (Resolved, info (Removed_all days) (info (Found_outdated 0 c n) s1)))
      \<and> transactions (removeOldMempool e c n ids (removeOldMempool e c n ids s)) =
          transactions (removeOldMempool e c n ids s)
      \<and> coins (removeOldMempool e c n ids (removeOldMempool e c n ids s)) =
          coins (removeOldMempool e c n ids s)"
proof -
  have w: "processOldMempoolTxs (e\<lparr>now := later\<rparr>) c n days s1 =
      (Resolved, info (Removed_all days) (info (Found_outdated 0 c n) s1))" if "\<not> DRY e"
  proof -
    from processOld_leaves_none [OF assms(1) that]
    have "\<not> old_mempool c n (Date (now e - days * ONE_DAY)) t"
      if "t \<in> set (transactions s1)" for t
      using that by (simp add: filter_empty_conv)
    with assms(2) have "filter (old_mempool c n (Date (later - days * ONE_DAY))) (transactions s1) = []"
      by (auto simp: filter_empty_conv)
    then show ?thesis
      by (simp add: processOldMempoolTxs_def)
  qed
  have u: "untouched s1 (snd (processOldMempoolTxs (e\<lparr>now := later\<rparr>) c n days s1))"
  proof (cases "DRY e")
    case True
    then have "DRY (e\<lparr>now := later\<rparr>)" by simp
    then show ?thesis by (rule processOld_dry)
  next
    case False
    then show ?thesis
      by (simp add: w untouched_info_iff untouched_refl)
  qed
  have t: "transactions (removeOldMempool e c n ids (removeOldMempool e c n ids s)) =
          transactions (removeOldMempool e c n ids s)"
    by (cases "DRY e") (simp_all add: removeOldMempool_transactions, simp add: removeOldMempool_def info_def)
  have k: "coins (removeOldMempool e c n ids (removeOldMempool e c n ids s)) =
          coins (removeOldMempool e c n ids s)"
    by (cases "DRY e") (simp_all add: removeOldMempool_coins, simp add: removeOldMempool_def info_def)
  from w u t k show ?thesis by blast
qed

lemma first_pass_young:
  "processOldMempoolTxs env0 ''BTC'' ''main'' 7 ex_young =
     (Resolved,
      ex_young\<lparr>transactions := [(mk_tx ''BTC'' ''C'' (- 1))\<lparr>blockTimeNormalized := 900000000\<rparr>],
                coins := [mk_coin ''BTC'' ''C'' (- 1) None (- 2)],
                logged := [Found_outdated 1 ''BTC'' ''main'', Finding ''A'', Removing False 1,
                           Removed ''A'' 1, Removed_all 7],
                issued := [Tx_deleteMany ''BTC'' ''main'' [''A''] (- 1),
                           Coin_deleteMany ''BTC'' ''main'' [''A''] (- 1)]\<rparr>)"
  by (simp add: processOldMempoolTxs_def transform_old_def removeOldMempool_def
      removeOldMempool_calls_def perform_def set_add_def old_mempool_def Date_def ONE_DAY_def
      ONE_HOUR_def ONE_MIN_def info_def confirmed_def Let_def ex_defs)

text \<open>
  The theorem of claim C9 at \<^verbatim>\<open>ex_young\<close>, with the second pass one minute after the
  first: the first pass removes \<^verbatim>\<open>A\<close> and its output, \<^verbatim>\<open>C\<close> is old at neither reading,
  and the second pass finds nothing.
\<close>

theorem old_mempool_idempotent_witness:
  "fst (processOldMempoolTxs env0 ''BTC'' ''main'' 7 ex_young) = Resolved
   \<and> transactions (snd (processOldMempoolTxs env0 ''BTC'' ''main'' 7 ex_young)) =
       [(mk_tx ''BTC'' ''C'' (- 1))\<lparr>blockTimeNormalized := 900000000\<rparr>]
   \<and> untouched (snd (processOldMempoolTxs env0 ''BTC'' ''main'' 7 ex_young))
        (snd (processOldMempoolTxs (env0\<lparr>now := 1000060000\<rparr>) ''BTC'' ''main'' 7
               (snd (processOldMempoolTxs env0 ''BTC'' ''main'' 7 ex_young))))"
proof -
  let ?s1 = "snd (processOldMempoolTxs env0 ''BTC'' ''main'' 7 ex_young)"
  have h1: "processOldMempoolTxs env0 ''BTC'' ''main'' 7 ex_young = (Resolved, ?s1)"
    by (simp add: first_pass_young)
  have t: "transactions ?s1 = [(mk_tx ''BTC'' ''C'' (- 1))\<lparr>blockTimeNormalized := 900000000\<rparr>]"
    by (simp add: first_pass_young)
  have h2: "\<forall>t\<in>set (transactions ?s1).
      old_mempool ''BTC'' ''main'' (Date (1000060000 - 7 * ONE_DAY)) t \<longrightarrow>
      old_mempool ''BTC'' ''main'' (Date (now env0 - 7 * ONE_DAY)) t"
    unfolding t
    by (simp add: old_mempool_def Date_def ONE_DAY_def ONE_HOUR_def ONE_MIN_def mk_tx_def env0_def)
  have f: "fst (processOldMempoolTxs env0 ''BTC'' ''main'' 7 ex_young) = Resolved"
    by (simp add: first_pass_young)
  from old_mempool_idempotent [OF h1 h2]
  have "untouched ?s1
      (snd (processOldMempoolTxs (env0\<lparr>now := 1000060000\<rparr>) ''BTC'' ''main'' 7 ?s1))"
    by (rule conjunct1)
  with f t show ?thesis
    by (intro conjI)
qed

lemma first_pass_clock:
  "processOldMempoolTxs env0 ''BTC'' ''main'' 7 ex_clock =
     (Resolved,
      ex_clock\<lparr>transactions := [(mk_tx ''BTC'' ''B'' (- 1))\<lparr>blockTimeNormalized := 395200000\<rparr>],
                coins := [mk_coin ''BTC'' ''B'' (- 1) None (- 2)],
                logged := [Found_outdated 1 ''BTC'' ''main'', Finding ''A'', Removing False 1,
                           Removed ''A'' 1, Removed_all 7],
                issued := [Tx_deleteMany ''BTC'' ''main'' [''A''] (- 1),
                           Coin_deleteMany ''BTC'' ''main'' [''A''] (- 1)]\<rparr>)"
  by (simp add: processOldMempoolTxs_def transform_old_def removeOldMempool_def
      removeOldMempool_calls_def perform_def set_add_def old_mempool_def Date_def ONE_DAY_def
      ONE_HOUR_def ONE_MIN_def info_def confirmed_def Let_def ex_defs)

text \<open>
  Claim C9 as the specification states it fails at \<^verbatim>\<open>ex_clock\<close>. The first pass, at the
  clock reading 1000000000, resolves; it removes \<^verbatim>\<open>A\<close> and leaves \<^verbatim>\<open>B\<close>, which is not yet
  seven days old. Nothing writes to the store. The second pass, one millisecond later,
  finds \<^verbatim>\<open>B\<close> old and deletes it and its output: line 101 reads the clock on every call.
\<close>

theorem old_mempool_idempotent_counterexample:
  "fst (processOldMempoolTxs env0 ''BTC'' ''main'' 7 ex_clock) = Resolved
   \<and> transactions (snd (processOldMempoolTxs env0 ''BTC'' ''main'' 7 ex_clock)) =
       [(mk_tx ''BTC'' ''B'' (- 1))\<lparr>blockTimeNormalized := 395200000\<rparr>]
   \<and> coins (snd (processOldMempoolTxs env0 ''BTC'' ''main'' 7 ex_clock)) =
       [mk_coin ''BTC'' ''B'' (- 1) None (- 2)]
   \<and> fst (processOldMempoolTxs (env0\<lparr>now := 1000000001\<rparr>) ''BTC'' ''main'' 7
            (snd (processOldMempoolTxs env0 ''BTC'' ''main'' 7 ex_clock))) = Resolved
   \<and> transactions
        (snd (processOldMempoolTxs (env0\<lparr>now := 1000000001\<rparr>) ''BTC'' ''main'' 7
               (snd (processOldMempoolTxs env0 ''BTC'' ''main'' 7 ex_clock)))) = []
   \<and> coins
        (snd (processOldMempoolTxs (env0\<lparr>now := 1000000001\<rparr>) ''BTC'' ''main'' 7
               (snd (processOldMempoolTxs env0 ''BTC'' ''main'' 7 ex_clock)))) = []"
  unfolding first_pass_clock
  by (simp add: processOldMempoolTxs_def transform_old_def removeOldMempool_def
      removeOldMempool_calls_def perform_def set_add_def old_mempool_def Date_def ONE_DAY_def
      ONE_HOUR_def ONE_MIN_def info_def confirmed_def Let_def ex_defs)

section \<open>The latch\<close>

lemma settle_pending_running:
  "fst (settle e s) = Pending \<Longrightarrow> running (snd (settle e s)) = running s"
  using same_flags_try_block [of s e]
  by (auto simp: settle_def same_flags_def split: prod.splits promise.splits)

lemma step_latch_inv: "latch_inv x \<Longrightarrow> latch_inv (step e ev x)"
proof -
  assume i: "latch_inv x"
  obtain s runs where x: "x = (s, runs)" by (cases x)
  show ?thesis
  proof (cases ev)
    case Trigger
    with i x show ?thesis
      by (auto simp: latch_inv_def enter_def)
  next
    case Work
    from i x consider "runs = []" | "runs = [Hung]" | "runs = [Started]"
      by (cases runs; cases "hd runs") (auto simp: latch_inv_def)
    then show ?thesis
    proof cases
      case 1
      with i x Work show ?thesis by simp
    next
      case 2
      with i x Work show ?thesis by simp
    next
      case 3
      with i x have r: "running s"
        by (simp add: latch_inv_def)
      show ?thesis
      proof (cases "fst (settle e s) = Pending")
        case True
        with settle_pending_running [OF True] r x Work 3 show ?thesis
          by (auto simp: latch_inv_def split: prod.splits promise.splits)
      next
        case False
        with settle_releases [OF False] x Work 3 show ?thesis
          by (auto simp: latch_inv_def split: prod.splits promise.splits)
      qed
    qed
  qed
qed

lemma fold_step_latch_inv: "latch_inv x \<Longrightarrow> latch_inv (fold (step e) evs x)"
  by (induction evs arbitrary: x) (simp_all add: step_latch_inv)

text \<open>
  The latch as far as it holds. A call of \<^verbatim>\<open>detectAndClear\<close> that finds \<^verbatim>\<open>running\<close> set
  resolves at once and leaves the state as it is: nothing logged, nothing sent, nothing
  kept for later; in a history the trigger changes neither the state nor the runs. A
  call that finds the latch free takes it and runs the \<^verbatim>\<open>try\<close> block with \<^verbatim>\<open>catch\<close> and
  \<^verbatim>\<open>finally\<close>; in a history the trigger adds a run. If that call settles, it has
  released the latch when it returns, whether the block resolved or rejected. In every
  history that starts with the latch free, at most one run has taken the latch and is
  not over, and \<^verbatim>\<open>running\<close> is set exactly while there is one.
\<close>

theorem single_flight:
  "(running s \<longrightarrow> detectAndClear e s = (Resolved, s) \<and> step e Trigger (s, runs) = (s, runs))
   \<and> (\<not> running s \<longrightarrow>
        detectAndClear e s = settle e (s\<lparr>running := True\<rparr>)
        \<and> step e Trigger (s, runs) = (s\<lparr>running := True\<rparr>, runs @ [Started]))
   \<and> (\<not> running s \<and> fst (detectAndClear e s) \<noteq> Pending \<longrightarrow>
        \<not> running (snd (detectAndClear e s)))
   \<and> (\<not> running s \<longrightarrow>
        length (snd (fold (step e) evs (s, []))) \<le> 1
        \<and> running (fst (fold (step e) evs (s, []))) = (snd (fold (step e) evs (s, [])) \<noteq> []))"
proof -
  have a: "detectAndClear e s = (Resolved, s) \<and> step e Trigger (s, runs) = (s, runs)"
    if "running s"
    using that by (simp add: detectAndClear_def enter_def)
  have f: "detectAndClear e s = settle e (s\<lparr>running := True\<rparr>)
        \<and> step e Trigger (s, runs) = (s\<lparr>running := True\<rparr>, runs @ [Started])"
    if "\<not> running s"
    using that by (simp add: detectAndClear_def enter_def)
  have b: "\<not> running (snd (detectAndClear e s))"
    if "\<not> running s" "fst (detectAndClear e s) \<noteq> Pending"
    using that by (simp add: detectAndClear_def enter_def settle_releases)
  have c: "length (snd (fold (step e) evs (s, []))) \<le> 1
        \<and> running (fst (fold (step e) evs (s, []))) = (snd (fold (step e) evs (s, [])) \<noteq> [])"
    if "\<not> running s"
  proof -
    from that have "latch_inv (s, [])"
      by (simp add: latch_inv_def)
    then have "latch_inv (fold (step e) evs (s, []))"
      by (rule fold_step_latch_inv)
    then show ?thesis
      by (simp add: latch_inv_def)
  qed
  from a f b c show ?thesis by blast
qed

text \<open>
  The latch at \<^verbatim>\<open>ex_two\<close>: a call under a taken latch, a call under a free one, and the
  history of three triggers, the work of the run and a trigger; the second and third
  trigger are dropped, the last one takes the latch again.
\<close>

theorem single_flight_witness:
  "detectAndClear env_two (ex_two\<lparr>running := True\<rparr>) = (Resolved, ex_two\<lparr>running := True\<rparr>)
   \<and> step env_two Trigger (ex_two\<lparr>running := True\<rparr>, [Started]) =
       (ex_two\<lparr>running := True\<rparr>, [Started])
   \<and> step env_two Trigger (ex_two, []) = (ex_two\<lparr>running := True\<rparr>, [Started])
   \<and> \<not> running (snd (detectAndClear env_two ex_two))
   \<and> length (snd (fold (step env_two) [Trigger, Trigger, Trigger, Work, Trigger] (ex_two, []))) \<le> 1"
proof -
  have r: "running (ex_two\<lparr>running := True\<rparr>)" "\<not> running ex_two"
    by (simp_all add: ex_defs)
  have p: "fst (detectAndClear env_two ex_two) \<noteq> Pending"
    by (simp add: detectAndClear_two)
  from single_flight [of "ex_two\<lparr>running := True\<rparr>" env_two "[Started]"]
    single_flight [of ex_two env_two "[]" "[Trigger, Trigger, Trigger, Work, Trigger]"] r p
  show ?thesis
    unfolding append_Nil by blast
qed

text \<open>
  A run that stays pending blocks the service. Let a call of \<^verbatim>\<open>detectAndClear\<close> find the
  latch free and let its \<^verbatim>\<open>try\<close> block stay pending. Then the call stays pending,
  \<^verbatim>\<open>finally\<close> does not run and \<^verbatim>\<open>running\<close> stays set: a later call returns at once, and
  in every history that begins with this trigger and the work of the run, the run stays
  and the state stays as the block left it.
\<close>

theorem pending_run_blocks_service:
  assumes "\<not> running s"
    and "try_block e (s\<lparr>running := True\<rparr>) = (Pending, s')"
  shows "detectAndClear e s = (Pending, s')
      \<and> running s'
      \<and> detectAndClear e s' = (Resolved, s')
      \<and> fold (step e) (Trigger # Work # evs) (s, []) = (s', [Hung])"
proof -
  have d: "detectAndClear e s = (Pending, s')"
    using assms by (simp add: detectAndClear_def enter_def settle_def)
  from same_flags_try_block [of "s\<lparr>running := True\<rparr>" e] assms(2)
  have r: "running s'"
    by (simp add: same_flags_def)
  then have a: "detectAndClear e s' = (Resolved, s')"
    by (simp add: detectAndClear_def enter_def)
  have st: "step e ev (s', [Hung]) = (s', [Hung])" for ev
    using r by (cases ev) (simp_all add: enter_def)
  have "fold (step e) evs (s', [Hung]) = (s', [Hung])"
    by (induction evs) (simp_all add: st)
  then have h: "fold (step e) (Trigger # Work # evs) (s, []) = (s', [Hung])"
    using assms by (simp add: enter_def settle_def)
  from d r a h show ?thesis by simp
qed

lemma try_block_many:
  "try_block env_one (ex_many\<lparr>running := True\<rparr>) =
     (Pending,
      ex_many\<lparr>running := True, logged := [Found_outdated 1 ''BTC'' ''main'', Finding ''T'']\<rparr>)"
proof -
  have f: "for_await ''T'' (replicate 51 (mk_coin ''BTC'' ''T'' (- 1) None (- 2))) [] 0 =
      Threw (Too_many_decendents ''T'')"
    by (simp add: mk_coin_def confirmed_def numeral_eq_Suc)
  have g: "yieldRelatedOutputs env_one (transactions ex_many) (coins ex_many) ''T'' =
      replicate 51 (mk_coin ''BTC'' ''T'' (- 1) None (- 2))"
    by (simp add: ex_defs)
  show ?thesis
    using f g
    by (simp add: try_block_def loop_body_def process_pair_def processOldMempoolTxs_def
        transform_old_def old_mempool_def Date_def ONE_DAY_def ONE_HOUR_def ONE_MIN_def info_def
        Let_def env_one_def env0_def ex_many_def mk_state_def mk_tx_def)
qed

text \<open>
  The old-mempool pass for \<^verbatim>\<open>BTC\<close> over \<^verbatim>\<open>ex_many\<close>, where \<^verbatim>\<open>T\<close> has 51 unconfirmed
  outputs: the transform throws and the block stays pending.
\<close>

theorem pending_run_blocks_service_witness:
  "\<not> running ex_many
   \<and> fst (detectAndClear env_one ex_many) = Pending
   \<and> running (snd (detectAndClear env_one ex_many))
   \<and> snd (fold (step env_one) [Trigger, Work, Trigger, Work, Trigger] (ex_many, [])) = [Hung]"
proof -
  have h1: "\<not> running ex_many"
    by (simp add: ex_defs)
  from pending_run_blocks_service [OF h1 try_block_many, of "[Trigger, Work, Trigger]"] h1
  show ?thesis
    by simp
qed

text \<open>
  Claim C8 fails on the code. The claim has the latch released after any run, also one
  that ends with an error, so that a later trigger can run. In \<^verbatim>\<open>ex_many\<close> the old mempool
  transaction \<^verbatim>\<open>T\<close> has 51 unconfirmed outputs. The run takes the latch and logs its two
  lines; line 130 throws inside the transform, the callback is never called, and the
  promise of line 109 stays pending. So does \<^verbatim>\<open>detectAndClear\<close>: \<^verbatim>\<open>finally\<close> never runs
  and \<^verbatim>\<open>running\<close> stays set. Every later call returns at line 76, and in the history the
  later triggers are dropped while the run stays for ever. The test two lines above,
  line 126, hands its error to the callback and so ends in \<^verbatim>\<open>catch\<close> and \<^verbatim>\<open>finally\<close>.
\<close>

theorem latch_never_released:
  "\<not> running ex_many
   \<and> detectAndClear env_one ex_many =
       (Pending,
        ex_many\<lparr>running := True, logged := [Found_outdated 1 ''BTC'' ''main'', Finding ''T'']\<rparr>)
   \<and> detectAndClear env_one
        (ex_many\<lparr>running := True, logged := [Found_outdated 1 ''BTC'' ''main'', Finding ''T'']\<rparr>) =
       (Resolved,
        ex_many\<lparr>running := True, logged := [Found_outdated 1 ''BTC'' ''main'', Finding ''T'']\<rparr>)
   \<and> fold (step env_one) [Trigger, Work, Trigger, Work, Trigger] (ex_many, []) =
       (ex_many\<lparr>running := True, logged := [Found_outdated 1 ''BTC'' ''main'', Finding ''T'']\<rparr>,
        [Hung])"
proof -
  let ?s' = "ex_many\<lparr>running := True,
                     logged := [Found_outdated 1 ''BTC'' ''main'', Finding ''T'']\<rparr>"
  have r: "\<not> running ex_many" "running ?s'"
    by (simp_all add: ex_defs)
  have d: "detectAndClear env_one ex_many = (Pending, ?s')"
    using r(1) try_block_many by (simp add: detectAndClear_def enter_def settle_def)
  have a: "detectAndClear env_one ?s' = (Resolved, ?s')"
    using r(2) by (simp add: detectAndClear_def enter_def)
  have h: "fold (step env_one) [Trigger, Work, Trigger, Work, Trigger] (ex_many, []) =
      (?s', [Hung])"
    using r try_block_many by (simp add: enter_def settle_def)
  from r(1) d a h show ?thesis
    by (intro conjI)
qed

section \<open>Further properties\<close>

text \<open>
  A dry run of the whole service. Under \<^verbatim>\<open>args.DRY\<close> a call of \<^verbatim>\<open>detectAndClear\<close> sends
  no mutation and leaves both collections as they are, whatever the store, the
  configuration and the generator.
\<close>

theorem dry_run_detectAndClear:
  assumes "DRY e"
  shows "untouched s (snd (detectAndClear e s))"
proof (cases "running s")
  case True
  then show ?thesis
    by (simp add: detectAndClear_def enter_def untouched_refl)
next
  case False
  have "untouched (s\<lparr>running := True\<rparr>) (snd (try_block e (s\<lparr>running := True\<rparr>)))"
    using assms by (rule try_block_dry)
  then have "untouched s (snd (settle e (s\<lparr>running := True\<rparr>)))"
    by (auto simp: settle_def untouched_def info_def split: prod.split promise.split)
  with False show ?thesis
    by (simp add: detectAndClear_def enter_def)
qed

text \<open>The dry run of both passes over \<^verbatim>\<open>ex_state\<close>.\<close>

theorem dry_run_detectAndClear_witness:
  "DRY (env0\<lparr>DRY := True, chainNetworks := [\<lparr>chain = ''BTC'', network = ''main''\<rparr>]\<rparr>)
   \<and> untouched ex_state
        (snd (detectAndClear
               (env0\<lparr>DRY := True, chainNetworks := [\<lparr>chain = ''BTC'', network = ''main''\<rparr>]\<rparr>)
               ex_state))"
proof -
  have h: "DRY (env0\<lparr>DRY := True, chainNetworks := [\<lparr>chain = ''BTC'', network = ''main''\<rparr>]\<rparr>)"
    by simp
  from dry_run_detectAndClear [OF h, of ex_state] h
  show ?thesis
    by (intro conjI)
qed

text \<open>
  The old-mempool cascade is scoped. \<^verbatim>\<open>removeOldMempool\<close> for a chain and a network
  leaves the transactions and the coins of every other chain or network as they are and
  in their order.
\<close>

theorem removeOldMempool_other_pairs:
  "filter (\<lambda>t. chain t \<noteq> c \<or> network t \<noteq> n) (transactions (removeOldMempool e c n ids s)) =
     filter (\<lambda>t. chain t \<noteq> c \<or> network t \<noteq> n) (transactions s)
   \<and> filter (\<lambda>k. chain k \<noteq> c \<or> network k \<noteq> n) (coins (removeOldMempool e c n ids s)) =
     filter (\<lambda>k. chain k \<noteq> c \<or> network k \<noteq> n) (coins s)"
proof -
  have "filter (\<lambda>t. chain t \<noteq> c \<or> network t \<noteq> n)
      (filter (\<lambda>t. \<not> (\<not> DRY e \<and> deleted_by c n ids t)) (transactions s)) =
    filter (\<lambda>t. chain t \<noteq> c \<or> network t \<noteq> n) (transactions s)"
    unfolding filter_filter by (rule filter_cong) (auto simp: deleted_by_def)
  moreover have "filter (\<lambda>k. chain k \<noteq> c \<or> network k \<noteq> n)
      (filter (\<lambda>k. \<not> (\<not> DRY e \<and> chain k = c \<and> network k = n \<and> mintTxid k \<in> set ids
                       \<and> mintHeight k = - 1)) (coins s)) =
    filter (\<lambda>k. chain k \<noteq> c \<or> network k \<noteq> n) (coins s)"
    unfolding filter_filter by (rule filter_cong) auto
  ultimately show ?thesis
    by (simp add: removeOldMempool_scoped)
qed

text \<open>
  The cascade for \<^verbatim>\<open>BCH\<close> with the txid \<^verbatim>\<open>T\<close> over \<^verbatim>\<open>ex_cross\<close>, where \<^verbatim>\<open>BTC\<close> has a
  transaction of that txid too.
\<close>

theorem removeOldMempool_other_pairs_witness:
  "filter (\<lambda>t. chain t \<noteq> ''BCH'' \<or> network t \<noteq> ''main'')
     (transactions (removeOldMempool env0 ''BCH'' ''main'' [''T''] ex_cross)) =
     [mk_tx ''BTC'' ''T'' (- 3)]
   \<and> filter (\<lambda>k. chain k \<noteq> ''BCH'' \<or> network k \<noteq> ''main'')
       (coins (removeOldMempool env0 ''BCH'' ''main'' [''T''] ex_cross)) =
     [mk_coin ''BTC'' ''T'' (- 1) None (- 2)]"
proof -
  have t: "filter (\<lambda>t. chain t \<noteq> ''BCH'' \<or> network t \<noteq> ''main'') (transactions ex_cross) =
      [mk_tx ''BTC'' ''T'' (- 3)]"
    by (simp add: ex_defs)
  have k: "filter (\<lambda>k. chain k \<noteq> ''BCH'' \<or> network k \<noteq> ''main'') (coins ex_cross) =
      [mk_coin ''BTC'' ''T'' (- 1) None (- 2)]"
    by (simp add: ex_defs)
  from removeOldMempool_other_pairs [of "''BCH''" "''main''" env0 "[''T'']" ex_cross]
  show ?thesis
    unfolding t k .
qed

end
